theory Spec2Isabelle
  imports Main
begin

section \<open>JavaScript values and strings\<close>

text \<open>
  The converter \<^verbatim>\<open>svgToReactNative\<close> exists in three versions in the repository:
  \<^item> \<^verbatim>\<open>src/src/App.jsx\<close>, line 8: the generic version (all component names imported,
    the markup rewritten as a whole);
  \<^item> \<^verbatim>\<open>src/unnamed/part_001\<close>, line 8: the themed version that emits the component
    \<^verbatim>\<open>FinalVersion\<close> with the props \<^verbatim>\<open>width\<close> and \<^verbatim>\<open>fillColor\<close>;
  \<^item> \<^verbatim>\<open>src/src/App.jsx\<close>, line 235: the themed version that emits only the \<^verbatim>\<open>Svg\<close>
    element and resolves the sizing (width, height, viewBox).
  All three are chains of regular-expression replacements on the text. A string is a list of
  8-bit code units. The values below are the primitive values the claims speak of: the
  falsy values and the strings. Objects, such as a \<^verbatim>\<open>String\<close> object, which has a \<^verbatim>\<open>replace\<close>
  method and passes the guard of the generic version, are not among them.
\<close>

datatype js_value = JUndefined | JNull | JBoolean bool | JString string

fun truthy :: "js_value \<Rightarrow> bool" where
  "truthy JUndefined = False"
| "truthy JNull = False"
| "truthy (JBoolean b) = b"
| "truthy (JString s) = (s \<noteq> [])"

text \<open>What the body of a \<^verbatim>\<open>try\<close> block can throw.\<close>

datatype js_error = TypeError

definition nl :: char where
  "nl = CHR 0x0A"

text \<open>\<^verbatim>\<open>\s\<close>, which is also the set \<^verbatim>\<open>trim()\<close> strips: tab, line feed, vertical tab, form feed,
  carriage return, space, no-break space.\<close>

definition is_space :: "char \<Rightarrow> bool" where
  "is_space c = (c = CHR 0x09 \<or> c = CHR 0x0A \<or> c = CHR 0x0B \<or> c = CHR 0x0C \<or> c = CHR 0x0D
     \<or> c = CHR 0x20 \<or> c = CHR 0xA0)"

definition is_line_terminator :: "char \<Rightarrow> bool" where
  "is_line_terminator c = (c = CHR 0x0A \<or> c = CHR 0x0D)"

definition is_lower :: "char \<Rightarrow> bool" where
  "is_lower c = (97 \<le> (of_char c :: nat) \<and> (of_char c :: nat) \<le> 122)"

definition is_upper :: "char \<Rightarrow> bool" where
  "is_upper c = (65 \<le> (of_char c :: nat) \<and> (of_char c :: nat) \<le> 90)"

definition is_digit :: "char \<Rightarrow> bool" where
  "is_digit c = (48 \<le> (of_char c :: nat) \<and> (of_char c :: nat) \<le> 57)"

text \<open>\<^verbatim>\<open>[a-z]\<close> under the flag \<^verbatim>\<open>i\<close>.\<close>

definition is_letter :: "char \<Rightarrow> bool" where
  "is_letter c = (is_lower c \<or> is_upper c)"

text \<open>\<^verbatim>\<open>[a-zA-Z0-9]\<close>\<close>

definition is_alnum :: "char \<Rightarrow> bool" where
  "is_alnum c = (is_lower c \<or> is_upper c \<or> is_digit c)"

text \<open>\<^verbatim>\<open>toUpperCase()\<close> on one character; the code applies it only to characters matched
  by \<^verbatim>\<open>[a-z]\<close> or \<^verbatim>\<open>[a-zA-Z0-9]\<close>, where it clears bit 5 of a lower-case letter.\<close>

definition toUpperCase :: "char \<Rightarrow> char" where
  "toUpperCase c =
     (if is_lower c
      then (case c of Char b0 b1 b2 b3 b4 b5 b6 b7 \<Rightarrow> Char b0 b1 b2 b3 b4 False b6 b7)
      else c)"

text \<open>\<^verbatim>\<open>s.charAt(0).toUpperCase() + s.slice(1)\<close>\<close>

fun capitalize :: "string \<Rightarrow> string" where
  "capitalize [] = []"
| "capitalize (x # xs) = toUpperCase x # xs"

definition startsWith :: "string \<Rightarrow> string \<Rightarrow> bool" where
  "startsWith s w = (take (length w) s = w)"

definition endsWith :: "string \<Rightarrow> string \<Rightarrow> bool" where
  "endsWith s w = (length w \<le> length s \<and> drop (length s - length w) s = w)"

fun includes_str :: "string \<Rightarrow> string \<Rightarrow> bool" where
  "includes_str [] w = (w = [])"
| "includes_str (x # xs) w = (startsWith (x # xs) w \<or> includes_str xs w)"

definition trim :: "string \<Rightarrow> string" where
  "trim s = rev (dropWhile is_space (rev (dropWhile is_space s)))"

text \<open>\<^verbatim>\<open>s.split("\n")\<close> and \<^verbatim>\<open>lines.join("\n")\<close>\<close>

fun split_nl :: "string \<Rightarrow> string list" where
  "split_nl [] = [[]]"
| "split_nl (x # xs) =
     (if x = nl then [] # split_nl xs
      else (case split_nl xs of [] \<Rightarrow> [[x]] | l # ls \<Rightarrow> (x # l) # ls))"

fun join_nl :: "string list \<Rightarrow> string" where
  "join_nl [] = []"
| "join_nl [l] = l"
| "join_nl (l # ls) = l @ nl # join_nl ls"

section \<open>Regular expressions with JavaScript's backtracking order\<close>

text \<open>
  A state of the matcher is the text before the position (reversed), the text from the
  position on, and the capture groups set so far (the latest first).
  \<open>matches e st\<close> lists the states in which a match of \<open>e\<close> from \<open>st\<close> can end, in the order
  in which JavaScript's backtracking matcher tries them: the head of the list is the match
  that JavaScript reports. A greedy star tries one more iteration first, a lazy star tries
  to stop first; an iteration that consumes nothing is rejected, as ECMAScript's
  RepeatMatcher does.
\<close>

type_synonym caps = "(nat \<times> string) list"
type_synonym mstate = "string \<times> string \<times> caps"

text \<open>
  \<^item> \<open>Chr p\<close>: one character of the class \<open>p\<close> (a literal character, \<^verbatim>\<open>[^>]\<close>, \<^verbatim>\<open>\s\<close>, ...);
  \<^item> \<open>Eps\<close>: the empty expression; \<open>Cat\<close>: one expression after the other;
  \<^item> \<open>Alt\<close>: \<^verbatim>\<open>a|b\<close>, the left alternative tried first;
  \<^item> \<open>Star\<close>: the greedy \<^verbatim>\<open>e*\<close>; \<open>LazyStar\<close>: the lazy \<^verbatim>\<open>e*?\<close>;
  \<^item> \<open>Grp i\<close>: the capture group number \<open>i\<close>; \<open>Ref i\<close>: the back reference \<^verbatim>\<open>\i\<close>, which
    matches the empty text while the group is not set;
  \<^item> \<open>Bol\<close>: \<^verbatim>\<open>^\<close> under the flag \<^verbatim>\<open>m\<close>, the start of the text or of a line;
  \<^item> \<open>NotAfter p\<close>: the negative lookbehind \<^verbatim>\<open>(?<!c)\<close> for one character of the class \<open>p\<close>.
\<close>

datatype regex =
    Chr "char \<Rightarrow> bool"
  | Eps
  | Cat regex regex
  | Alt regex regex
  | Star regex
  | LazyStar regex
  | Grp nat regex
  | Ref nat
  | Bol
  | NotAfter "char \<Rightarrow> bool"

definition remaining :: "mstate \<Rightarrow> nat" where
  "remaining st = length (fst (snd st))"

text \<open>The text still to be matched in a state, and the state \<open>k\<close> characters further on.\<close>

definition rest :: "mstate \<Rightarrow> string" where
  "rest st = fst (snd st)"

definition after :: "nat \<Rightarrow> mstate \<Rightarrow> mstate" where
  "after k st = (rev (take k (fst (snd st))) @ fst st, drop k (fst (snd st)), snd (snd st))"

function (sequential) matches :: "regex \<Rightarrow> mstate \<Rightarrow> mstate list" where
  "matches (Chr p) (b, r, c) =
     (case r of [] \<Rightarrow> [] | x # xs \<Rightarrow> if p x then [(x # b, xs, c)] else [])"
| "matches Eps st = [st]"
| "matches (Cat e1 e2) st = concat (map (matches e2) (matches e1 st))"
| "matches (Alt e1 e2) st = matches e1 st @ matches e2 st"
| "matches (Star e) st =
     concat (map (matches (Star e))
       (filter (\<lambda>st'. remaining st' < remaining st) (matches e st))) @ [st]"
| "matches (LazyStar e) st =
     st # concat (map (matches (LazyStar e))
       (filter (\<lambda>st'. remaining st' < remaining st) (matches e st)))"
| "matches (Grp i e) (b, r, c) =
     map (\<lambda>(b', r', c'). (b', r', (i, take (length r - length r') r) # c'))
       (matches e (b, r, c))"
| "matches (Ref i) (b, r, c) =
     (case map_of c i of
        None \<Rightarrow> [(b, r, c)]
      | Some w \<Rightarrow> if take (length w) r = w then [(rev w @ b, drop (length w) r, c)] else [])"
| "matches Bol (b, r, c) =
     (if b = [] \<or> is_line_terminator (hd b) then [(b, r, c)] else [])"
| "matches (NotAfter p) (b, r, c) =
     (if b \<noteq> [] \<and> p (hd b) then [] else [(b, r, c)])"
  by pat_completeness auto
termination
  by (relation "measures [\<lambda>(e, st). size e, \<lambda>(e, st). remaining st]")
     (auto simp: remaining_def)

text \<open>An expression is plain when it has no \<^verbatim>\<open>^\<close> and no lookbehind: what it matches does not
  depend on the text before the position.\<close>

fun plain :: "regex \<Rightarrow> bool" where
  "plain (Chr p) = True"
| "plain Eps = True"
| "plain (Cat e1 e2) = (plain e1 \<and> plain e2)"
| "plain (Alt e1 e2) = (plain e1 \<and> plain e2)"
| "plain (Star e) = plain e"
| "plain (LazyStar e) = plain e"
| "plain (Grp i e) = plain e"
| "plain (Ref i) = True"
| "plain Bol = False"
| "plain (NotAfter p) = False"

text \<open>A literal text, and the same under the flag \<^verbatim>\<open>i\<close>.\<close>

fun Lit :: "string \<Rightarrow> regex" where
  "Lit [] = Eps"
| "Lit (x # xs) = Cat (Chr (\<lambda>c. c = x)) (Lit xs)"

fun LitI :: "string \<Rightarrow> regex" where
  "LitI [] = Eps"
| "LitI (x # xs) = Cat (Chr (\<lambda>c. toUpperCase c = toUpperCase x)) (LitI xs)"

fun Seq :: "regex list \<Rightarrow> regex" where
  "Seq [] = Eps"
| "Seq [e] = e"
| "Seq (e # es) = Cat e (Seq es)"

text \<open>\<^verbatim>\<open>e+\<close> and \<^verbatim>\<open>e?\<close>, both greedy.\<close>

definition Plus :: "regex \<Rightarrow> regex" where
  "Plus e = Cat e (Star e)"

definition Opt :: "regex \<Rightarrow> regex" where
  "Opt e = Alt e Eps"

text \<open>The text of a capture group, empty when the group took no part in the match
  (\<^verbatim>\<open>$1\<close> in a replacement string, or the argument of a callback joined into a string).\<close>

definition grp :: "caps \<Rightarrow> nat \<Rightarrow> string" where
  "grp c i = (case map_of c i of None \<Rightarrow> [] | Some w \<Rightarrow> w)"

text \<open>One attempt at one position: the length of the matched text and the captures.\<close>

definition first_match :: "regex \<Rightarrow> string \<Rightarrow> string \<Rightarrow> (nat \<times> caps) option" where
  "first_match e b r =
     (case matches e (b, r, []) of
        [] \<Rightarrow> None
      | st # _ \<Rightarrow> Some (length r - remaining st, snd (snd st)))"

text \<open>
  \<^verbatim>\<open>s.replace(/e/g, f)\<close>: every match from left to right, the search resuming after the
  match (one character further after an empty match). \<open>f\<close> gets the matched text and the
  captures; a replacement string with \<^verbatim>\<open>$1\<close> is such a function.
\<close>

function replace_from ::
  "regex \<Rightarrow> (string \<Rightarrow> caps \<Rightarrow> string) \<Rightarrow> string \<Rightarrow> string \<Rightarrow> string" where
  "replace_from e f b r =
     (case first_match e b r of
        None \<Rightarrow> (case r of [] \<Rightarrow> [] | x # xs \<Rightarrow> x # replace_from e f (x # b) xs)
      | Some (n, c) \<Rightarrow>
          if n = 0
          then f [] c @ (case r of [] \<Rightarrow> [] | x # xs \<Rightarrow> x # replace_from e f (x # b) xs)
          else f (take n r) c @ replace_from e f (rev (take n r) @ b) (drop n r))"
  by pat_completeness auto
termination
  by (relation "measure (\<lambda>(e, f, b, r). length r)")
     (auto simp: first_match_def split: list.splits)

definition replace_all :: "regex \<Rightarrow> (string \<Rightarrow> caps \<Rightarrow> string) \<Rightarrow> string \<Rightarrow> string" where
  "replace_all e f s = replace_from e f [] s"

text \<open>\<^verbatim>\<open>s.match(/e/)\<close> without the flag \<^verbatim>\<open>g\<close>: the first position with a match; the text before
  it, the matched text, the captures and the text after it.\<close>

fun search_from :: "regex \<Rightarrow> string \<Rightarrow> string \<Rightarrow> (string \<times> string \<times> caps \<times> string) option" where
  "search_from e b [] =
     (case first_match e b [] of None \<Rightarrow> None | Some (n, c) \<Rightarrow> Some (rev b, [], c, []))"
| "search_from e b (x # xs) =
     (case first_match e b (x # xs) of
        None \<Rightarrow> search_from e (x # b) xs
      | Some (n, c) \<Rightarrow> Some (rev b, take n (x # xs), c, drop n (x # xs)))"

definition match_first :: "regex \<Rightarrow> string \<Rightarrow> caps option" where
  "match_first e s =
     (case search_from e [] s of None \<Rightarrow> None | Some (pre, m, c, post) \<Rightarrow> Some c)"

text \<open>\<^verbatim>\<open>s.replace(/e/, f)\<close> without the flag \<^verbatim>\<open>g\<close>: the first match only.\<close>

definition replace_first :: "regex \<Rightarrow> (string \<Rightarrow> caps \<Rightarrow> string) \<Rightarrow> string \<Rightarrow> string" where
  "replace_first e f s =
     (case search_from e [] s of
        None \<Rightarrow> s
      | Some (pre, m, c, post) \<Rightarrow> pre @ f m c @ post)"

section \<open>The regular expressions of the source\<close>

text \<open>The character classes \<^verbatim>\<open>[^>]\<close>, \<^verbatim>\<open>[^"]\<close>, \<^verbatim>\<open>[\s\S]\<close> and \<^verbatim>\<open>.\<close>\<close>

definition not_gt :: "char \<Rightarrow> bool" where
  "not_gt c = (c \<noteq> CHR ''>'')"

definition not_dquote :: "char \<Rightarrow> bool" where
  "not_dquote c = (c \<noteq> CHR 0x22)"

definition any_char :: "char \<Rightarrow> bool" where
  "any_char c = True"

definition dot :: "char \<Rightarrow> bool" where
  "dot c = (\<not> is_line_terminator c)"

text \<open>Replacing by the empty string, and by a fixed string.\<close>

definition to_empty :: "string \<Rightarrow> caps \<Rightarrow> string" where
  "to_empty m c = []"

text \<open>\<^verbatim>\<open>/([a-zA-Z0-9]+)-([a-zA-Z0-9]+)=/g\<close> with the callback
  \<^verbatim>\<open>(_, a, b) => `${a}${b.charAt(0).toUpperCase()}${b.slice(1)}=`\<close>
  (App.jsx 22, 280-285, 301-303; part_001 31-36, 52-54).\<close>

definition rx_camel :: regex where
  "rx_camel = Seq [Grp 1 (Plus (Chr is_alnum)), Lit ''-'', Grp 2 (Plus (Chr is_alnum)), Lit ''='']"

definition camel_fn :: "string \<Rightarrow> caps \<Rightarrow> string" where
  "camel_fn m c = grp c 1 @ capitalize (grp c 2) @ ''=''"

definition camelCase :: "string \<Rightarrow> string" where
  "camelCase s = replace_all rx_camel camel_fn s"

text \<open>\<^verbatim>\<open>/class=/g\<close> to \<^verbatim>\<open>className=\<close>\<close>

definition className :: "string \<Rightarrow> string" where
  "className s = replace_all (Lit ''class='') (\<lambda>m c. ''className='') s"

text \<open>\<^verbatim>\<open>/<([a-z]+)/g\<close> and \<^verbatim>\<open>/<\/([a-z]+)/g\<close> (App.jsx 28-35), under the flag \<^verbatim>\<open>i\<close> in the
  themed versions (App.jsx 290-297, part_001 41-48), with the callbacks that capitalize the
  tag name.\<close>

definition rx_open_tag :: "bool \<Rightarrow> regex" where
  "rx_open_tag ci = Seq [Lit ''<'', Grp 1 (Plus (Chr (if ci then is_letter else is_lower)))]"

definition rx_close_tag :: "bool \<Rightarrow> regex" where
  "rx_close_tag ci = Seq [Lit ''</'', Grp 1 (Plus (Chr (if ci then is_letter else is_lower)))]"

definition open_tag_fn :: "string \<Rightarrow> caps \<Rightarrow> string" where
  "open_tag_fn m c = (if grp c 1 = ''svg'' then ''<Svg'' else ''<'' @ capitalize (grp c 1))"

definition close_tag_fn :: "string \<Rightarrow> caps \<Rightarrow> string" where
  "close_tag_fn m c = (if grp c 1 = ''svg'' then ''</Svg'' else ''</'' @ capitalize (grp c 1))"

text \<open>\<^verbatim>\<open>/<style[^>]*>[\s\S]*?<\/style>/gi\<close> and \<^verbatim>\<open>/<script[^>]*>[\s\S]*?<\/script>/gi\<close>\<close>

definition rx_style :: regex where
  "rx_style = Seq [LitI ''<style'', Star (Chr not_gt), Lit ''>'', LazyStar (Chr any_char),
     LitI ''</style>'']"

definition rx_script :: regex where
  "rx_script = Seq [LitI ''<script'', Star (Chr not_gt), Lit ''>'', LazyStar (Chr any_char),
     LitI ''</script>'']"

text \<open>\<^verbatim>\<open>/(width|height)="[^"]*"/g\<close>\<close>

definition rx_width_height :: regex where
  \<open>rx_width_height = Seq [Grp 1 (Alt (Lit ''width'') (Lit ''height'')), Lit ''="'',
     Star (Chr not_dquote), Lit ''"'']\<close>

text \<open>\<^verbatim>\<open>/^\s*\n/gm\<close> and \<^verbatim>\<open>/\n\s*\n/g\<close>\<close>

definition rx_blank_line :: regex where
  "rx_blank_line = Seq [Bol, Star (Chr is_space), Chr (\<lambda>c. c = nl)]"

definition rx_blank_between :: regex where
  "rx_blank_between = Seq [Chr (\<lambda>c. c = nl), Star (Chr is_space), Chr (\<lambda>c. c = nl)]"

section \<open>The generic version (App.jsx, lines 8 to 61)\<close>

text \<open>\<^verbatim>\<open>/<\?xml(.|\n)*?\?>/g\<close>, \<^verbatim>\<open>/<!--(.|\n)*?-->/g\<close>, \<^verbatim>\<open>/<!DOCTYPE(.|\n)*?>/gi\<close>\<close>

definition dot_or_nl :: regex where
  "dot_or_nl = Grp 1 (Alt (Chr dot) (Chr (\<lambda>c. c = nl)))"

definition rx_xml_generic :: regex where
  "rx_xml_generic = Seq [Lit ''<?xml'', LazyStar dot_or_nl, Lit ''?>'']"

definition rx_comment_generic :: regex where
  "rx_comment_generic = Seq [Lit ''<!--'', LazyStar dot_or_nl, Lit ''-->'']"

definition rx_doctype_generic :: regex where
  "rx_doctype_generic = Seq [LitI ''<!DOCTYPE'', LazyStar dot_or_nl, Lit ''>'']"

text \<open>\<^verbatim>\<open>/xmlns:xlink="[^"]*"/g\<close>\<close>

definition rx_xlink :: regex where
  \<open>rx_xlink = Seq [Lit ''xmlns:xlink="'', Star (Chr not_dquote), Lit ''"'']\<close>

text \<open>\<^verbatim>\<open>/<svg([^>]*)>/\<close> to \<^verbatim>\<open><Svg$1>\<close> and \<^verbatim>\<open>/<\/svg>/\<close> to \<^verbatim>\<open></Svg>\<close>, the first match only.\<close>

definition rx_svg_open :: regex where
  "rx_svg_open = Seq [Lit ''<svg'', Grp 1 (Star (Chr not_gt)), Lit ''>'']"

text \<open>\<^verbatim>\<open>/(<[A-Za-z0-9]+[^>]*)(?<!\/)>/g\<close> with a callback that returns the match in both of its
  branches (App.jsx 37-41).\<close>

definition rx_unclosed :: regex where
  "rx_unclosed = Seq [Grp 1 (Seq [Lit ''<'', Plus (Chr is_alnum), Star (Chr not_gt)]),
     NotAfter (\<lambda>c. c = CHR ''/''), Lit ''>'']"

definition unclosed_fn :: "string \<Rightarrow> caps \<Rightarrow> string" where
  "unclosed_fn m c = (if endsWith m ''/>'' then m else m)"

text \<open>The sanitizing replacements (App.jsx 12-16).\<close>

definition sanitize_generic :: "string \<Rightarrow> string" where
  "sanitize_generic svg =
     replace_all rx_doctype_generic to_empty
       (replace_all rx_comment_generic to_empty
         (replace_all rx_xml_generic to_empty svg))"

text \<open>The rewriting of the markup (App.jsx 18-51).\<close>

definition rewrite_generic :: "string \<Rightarrow> string" where
  "rewrite_generic svg0 =
     (let svg = replace_all rx_xlink to_empty svg0;
          svg = replace_all rx_width_height to_empty svg;
          svg = camelCase svg;
          svg = className svg;
          svg = replace_first rx_svg_open (\<lambda>m c. ''<Svg'' @ grp c 1 @ ''>'') svg;
          svg = replace_first (Lit ''</svg>'') (\<lambda>m c. ''</Svg>'') svg;
          svg = replace_all (rx_open_tag False) open_tag_fn svg;
          svg = replace_all (rx_close_tag False) close_tag_fn svg;
          svg = replace_all rx_unclosed unclosed_fn svg;
          svg = replace_all rx_style to_empty svg;
          svg = replace_all rx_script to_empty svg;
          svg = replace_all rx_blank_line to_empty svg;
          svg = replace_all (Chr (\<lambda>c. c = nl)) (\<lambda>m c. nl # ''  '') svg
      in trim svg)"

definition wrap_generic :: "string \<Rightarrow> string" where
  "wrap_generic svg =
     ''import * as React from 'react';'' @ [nl] @
     ''import { Svg, Path, Circle, Rect, Ellipse, G, Defs, LinearGradient, Stop, Polygon, Polyline, Line, Text, TSpan } from 'react-native-svg';''
       @ [nl, nl] @
     ''export default function SvgComponent(props) {'' @ [nl] @ ''  return ('' @ [nl] @
     ''    '' @ svg @ [nl] @ ''  );'' @ [nl] @ ''}''"

text \<open>The body of the \<^verbatim>\<open>try\<close> block. On a string no step throws; on the one other truthy value
  of \<open>js_value\<close>, \<^verbatim>\<open>true\<close>, which has no method \<^verbatim>\<open>replace\<close>, the first step throws a TypeError.\<close>

definition svgToReactNative_generic_try :: "js_value \<Rightarrow> js_error + string" where
  "svgToReactNative_generic_try v =
     (case v of
        JString svg \<Rightarrow> Inr (wrap_generic (rewrite_generic (sanitize_generic svg)))
      | _ \<Rightarrow> Inl TypeError)"

definition svgToReactNative_generic :: "js_value \<Rightarrow> string" where
  "svgToReactNative_generic v =
     (if \<not> truthy v then []
      else (case svgToReactNative_generic_try v of
              Inr out \<Rightarrow> out
            | Inl err \<Rightarrow> ''// Error parsing SVG''))"

text \<open>The editor of the generic version hands to the converter only the first block
  \<^verbatim>\<open>/<svg[\s\S]*?<\/svg>/i\<close> of what was typed, or the empty string (\<^verbatim>\<open>onValueChange\<close>,
  App.jsx 144-148).\<close>

definition rx_svg_block :: regex where
  "rx_svg_block = Seq [LitI ''<svg'', LazyStar (Chr any_char), LitI ''</svg>'']"

definition onValueChange :: "string \<Rightarrow> string" where
  "onValueChange v =
     (case search_from rx_svg_block [] v of None \<Rightarrow> [] | Some (pre, m, c, post) \<Rightarrow> m)"

section \<open>The themed version that emits the component (part_001, lines 8 to 111)\<close>

text \<open>\<^verbatim>\<open>/<\?xml[^>]*\?>/gi\<close>, \<^verbatim>\<open>/<!DOCTYPE[^>]*>/gi\<close>, \<^verbatim>\<open>/<!--[\s\S]*?-->/g\<close>
  (part_001 13-16, App.jsx 240-243).\<close>

definition rx_xml :: regex where
  "rx_xml = Seq [LitI ''<?xml'', Star (Chr not_gt), Lit ''?>'']"

definition rx_doctype :: regex where
  "rx_doctype = Seq [LitI ''<!DOCTYPE'', Star (Chr not_gt), Lit ''>'']"

definition rx_comment :: regex where
  "rx_comment = Seq [Lit ''<!--'', LazyStar (Chr any_char), Lit ''-->'']"

definition sanitize :: "string \<Rightarrow> string" where
  "sanitize svg =
     replace_all rx_comment to_empty
       (replace_all rx_doctype to_empty
         (replace_all rx_xml to_empty svg))"

text \<open>\<^verbatim>\<open>svg.match(/<svg([^>]*)>([\s\S]*?)<\/svg>/i)\<close>: the attributes of the root and its
  content, or no match.\<close>

definition rx_svg :: regex where
  "rx_svg = Seq [LitI ''<svg'', Grp 1 (Star (Chr not_gt)), Lit ''>'',
     Grp 2 (LazyStar (Chr any_char)), LitI ''</svg>'']"

definition svgMatch :: "string \<Rightarrow> (string \<times> string) option" where
  "svgMatch svg =
     (case match_first rx_svg svg of None \<Rightarrow> None | Some c \<Rightarrow> Some (grp c 1, grp c 2))"

text \<open>\<^verbatim>\<open>/xmlns(:xlink)?="[^"]*"/g\<close>\<close>

definition rx_xmlns :: regex where
  \<open>rx_xmlns = Seq [Lit ''xmlns'', Opt (Grp 1 (Lit '':xlink'')), Lit ''="'',
     Star (Chr not_dquote), Lit ''"'']\<close>

text \<open>The attributes of the root without the namespaces, the width and the height
  (part_001 25-28, App.jsx 265-268).\<close>

definition strip_root_attributes :: "string \<Rightarrow> string" where
  "strip_root_attributes svgAttrs =
     trim (replace_all rx_width_height to_empty (replace_all rx_xmlns to_empty svgAttrs))"

text \<open>\<^verbatim>\<open>/<([A-Za-z0-9]+)([^>]*)\/>/g\<close> to \<^verbatim>\<open><$1$2 />\<close>, and
  \<^verbatim>\<open>/<([A-Za-z0-9]+)([^>]*)>([\s\S]*?)<\/\1>/g\<close> with the callback that collapses an element
  whose inner text is blank (part_001 59-66, App.jsx 308-315).\<close>

definition rx_self_closing :: regex where
  "rx_self_closing = Seq [Lit ''<'', Grp 1 (Plus (Chr is_alnum)), Grp 2 (Star (Chr not_gt)),
     Lit ''/>'']"

definition self_closing_fn :: "string \<Rightarrow> caps \<Rightarrow> string" where
  "self_closing_fn m c = ''<'' @ grp c 1 @ grp c 2 @ '' />''"

definition rx_paired :: regex where
  "rx_paired = Seq [Lit ''<'', Grp 1 (Plus (Chr is_alnum)), Grp 2 (Star (Chr not_gt)),
     Lit ''>'', Grp 3 (LazyStar (Chr any_char)), Lit ''</'', Ref 1, Lit ''>'']"

definition paired_fn :: "string \<Rightarrow> caps \<Rightarrow> string" where
  "paired_fn m c =
     (if trim (grp c 3) = [] then ''<'' @ grp c 1 @ grp c 2 @ '' />'' else m)"

definition collapse_empty :: "string \<Rightarrow> string" where
  "collapse_empty s =
     replace_all rx_paired paired_fn (replace_all rx_self_closing self_closing_fn s)"

text \<open>\<^verbatim>\<open>/<Path([^>]*?)fill="[^"]*"([^>]*?)\/>/g\<close> to \<^verbatim>\<open><Path$1fill={fillColor}$2 />\<close>, and
  \<^verbatim>\<open>/<Path([^>]*?)fill="[^"]*"([^>]*?)>([\s\S]*?)<\/Path>/g\<close> to
  \<^verbatim>\<open><Path$1fill={fillColor}$2>$3</Path>\<close> (part_001 68-75).\<close>

definition rx_fill_self_closing :: regex where
  \<open>rx_fill_self_closing = Seq [Lit ''<Path'', Grp 1 (LazyStar (Chr not_gt)), Lit ''fill="'',
     Star (Chr not_dquote), Lit ''"'', Grp 2 (LazyStar (Chr not_gt)), Lit ''/>'']\<close>

definition fill_self_closing_fn :: "string \<Rightarrow> caps \<Rightarrow> string" where
  "fill_self_closing_fn m c = ''<Path'' @ grp c 1 @ ''fill={fillColor}'' @ grp c 2 @ '' />''"

definition rx_fill_paired :: regex where
  \<open>rx_fill_paired = Seq [Lit ''<Path'', Grp 1 (LazyStar (Chr not_gt)), Lit ''fill="'',
     Star (Chr not_dquote), Lit ''"'', Grp 2 (LazyStar (Chr not_gt)), Lit ''>'',
     Grp 3 (LazyStar (Chr any_char)), Lit ''</Path>'']\<close>

definition fill_paired_fn :: "string \<Rightarrow> caps \<Rightarrow> string" where
  "fill_paired_fn m c =
     ''<Path'' @ grp c 1 @ ''fill={fillColor}'' @ grp c 2 @ ''>'' @ grp c 3 @ ''</Path>''"

definition apply_fillColor :: "string \<Rightarrow> string" where
  "apply_fillColor s =
     replace_all rx_fill_paired fill_paired_fn
       (replace_all rx_fill_self_closing fill_self_closing_fn s)"

text \<open>The rewriting of the content up to the collapse of empty elements, the steps the two
  themed versions share (part_001 39-66, App.jsx 288-315).\<close>

definition rewrite_tags :: "string \<Rightarrow> string" where
  "rewrite_tags svgContent =
     (let s = replace_all (rx_open_tag True) open_tag_fn svgContent;
          s = replace_all (rx_close_tag True) close_tag_fn s;
          s = className s;
          s = camelCase s;
          s = replace_all rx_style to_empty s;
          s = replace_all rx_script to_empty s
      in collapse_empty s)"

text \<open>Blank lines removed and the text trimmed (part_001 78-81, App.jsx 329-332), and
  every line indented (part_001 84-87 with six spaces, App.jsx 335-338 with eight).\<close>

definition normalize_whitespace :: "string \<Rightarrow> string" where
  "normalize_whitespace s =
     trim (replace_all rx_blank_between (\<lambda>m c. [nl]) (replace_all rx_blank_line to_empty s))"

definition indent :: "string \<Rightarrow> string \<Rightarrow> string" where
  "indent pad s = join_nl (map (\<lambda>line. pad @ line) (split_nl s))"

definition content_themed :: "string \<Rightarrow> string" where
  "content_themed svgContent =
     indent ''      '' (normalize_whitespace (apply_fillColor (rewrite_tags svgContent)))"

definition template_themed :: "string \<Rightarrow> string \<Rightarrow> string" where
  \<open>template_themed attributes content =
     ''import React from "react"'' @ [nl] @
     ''import Svg, { Path } from "react-native-svg"'' @ [nl, nl] @
     ''interface ThemeSVGProps {'' @ [nl] @
     ''  width: number // Accepts width as a prop'' @ [nl] @
     ''  fillColor: string'' @ [nl] @
     ''}'' @ [nl, nl] @
     ''const FinalVersion: React.FC<ThemeSVGProps> = ({ width, fillColor }) => {'' @ [nl] @
     ''  const height = (width * 1024) / 1024 // Maintain the aspect ratio based on the original SVG size''
       @ [nl, nl] @
     ''  return ('' @ [nl] @
     ''    <Svg width={width} height={height} '' @ attributes @ '' fill={fillColor}>'' @ [nl] @
     content @ [nl] @
     ''    </Svg>'' @ [nl] @
     ''  )'' @ [nl] @
     ''}'' @ [nl, nl] @
     ''export default FinalVersion''\<close>

text \<open>The guard before the \<^verbatim>\<open>try\<close> block lets only a non-empty string through, and no step
  of the block throws on a string.\<close>

definition svgToReactNative_themed :: "js_value \<Rightarrow> string" where
  "svgToReactNative_themed v =
     (case v of
        JString svg0 \<Rightarrow>
          if svg0 = [] then ''// Invalid SVG input''
          else (case svgMatch (sanitize svg0) of
                  None \<Rightarrow> ''// No valid SVG content found''
                | Some (svgAttrs, svgContent) \<Rightarrow>
                    template_themed (camelCase (strip_root_attributes svgAttrs))
                      (content_themed svgContent))
      | _ \<Rightarrow> ''// Invalid SVG input'')"

section \<open>The themed version that resolves the sizing (App.jsx, lines 235 to 359)\<close>

text \<open>\<^verbatim>\<open>/width\s*=\s*["']?([^"'\s>]+)/i\<close> and \<^verbatim>\<open>/height\s*=\s*["']?([^"'\s>]+)/i\<close>
  (App.jsx 252-255).\<close>

definition is_quote :: "char \<Rightarrow> bool" where
  "is_quote c = (c = CHR 0x22 \<or> c = CHR 0x27)"

definition value_char :: "char \<Rightarrow> bool" where
  "value_char c = (\<not> (is_quote c \<or> is_space c \<or> c = CHR ''>''))"

definition rx_dimension :: "string \<Rightarrow> regex" where
  "rx_dimension name = Seq [LitI name, Star (Chr is_space), Lit ''='', Star (Chr is_space),
     Opt (Chr is_quote), Grp 1 (Plus (Chr value_char))]"

definition dimension :: "string \<Rightarrow> string \<Rightarrow> string" where
  "dimension name svgAttrs =
     (case match_first (rx_dimension name) svgAttrs of None \<Rightarrow> ''100'' | Some c \<Rightarrow> grp c 1)"

text \<open>\<^verbatim>\<open>/viewBox="([^"]*)"/i\<close> (App.jsx 273) and \<^verbatim>\<open>/viewBox\s*=\s*["']([^"']+)["']/i\<close>
  (App.jsx 341).\<close>

definition rx_viewBox_strict :: regex where
  \<open>rx_viewBox_strict = Seq [LitI ''viewBox="'', Grp 1 (Star (Chr not_dquote)), Lit ''"'']\<close>

definition rx_viewBox :: regex where
  "rx_viewBox = Seq [LitI ''viewBox'', Star (Chr is_space), Lit ''='', Star (Chr is_space),
     Chr is_quote, Grp 1 (Plus (Chr (\<lambda>c. \<not> is_quote c))), Chr is_quote]"

text \<open>The variable \<^verbatim>\<open>attributes\<close> (App.jsx 265-285); the value returned does not use it.\<close>

definition attributes_App :: "string \<Rightarrow> string" where
  \<open>attributes_App svgAttrs =
     (let attributes = strip_root_attributes svgAttrs;
          attributes =
            (if \<not> includes_str attributes ''viewBox''
             then (case match_first rx_viewBox_strict svgAttrs of
                     None \<Rightarrow> attributes
                   | Some c \<Rightarrow> attributes @ '' viewBox="'' @ grp c 1 @ ''"'')
             else attributes)
      in camelCase attributes)\<close>

text \<open>The resolved viewBox (App.jsx 340-344).\<close>

definition viewBox :: "string \<Rightarrow> string" where
  "viewBox svgAttrs =
     (case match_first rx_viewBox svgAttrs of
        Some c \<Rightarrow> grp c 1
      | None \<Rightarrow> ''0 0 '' @ dimension ''width'' svgAttrs @ '' '' @ dimension ''height'' svgAttrs)"

text \<open>\<^verbatim>\<open>/<Path([^>]*)\s+fill\s*=\s*"[^"]*"([^>]*>)/g\<close> with the callback
  \<^verbatim>\<open>(match, before, after) => `<Path${before} fill={fillColor} ${after}`\<close> (App.jsx 317-326).\<close>

definition rx_fill_App :: regex where
  \<open>rx_fill_App = Seq [Lit ''<Path'', Grp 1 (Star (Chr not_gt)), Plus (Chr is_space),
     Lit ''fill'', Star (Chr is_space), Lit ''='', Star (Chr is_space), Lit ''"'',
     Star (Chr not_dquote), Lit ''"'', Grp 2 (Cat (Star (Chr not_gt)) (Lit ''>''))]\<close>

definition fill_App_fn :: "string \<Rightarrow> caps \<Rightarrow> string" where
  "fill_App_fn m c = ''<Path'' @ grp c 1 @ '' fill={fillColor} '' @ grp c 2"

definition apply_fillColor_App :: "string \<Rightarrow> string" where
  "apply_fillColor_App s = replace_all rx_fill_App fill_App_fn s"

definition content_App :: "string \<Rightarrow> string" where
  "content_App svgContent =
     indent ''        '' (normalize_whitespace (apply_fillColor_App (rewrite_tags svgContent)))"

definition template_App :: "string \<Rightarrow> string \<Rightarrow> string" where
  \<open>template_App vb content =
     ''<Svg width={width} height={height} viewBox="'' @ vb @ ''" fill={fillColor}>'' @ [nl] @
     content @ [nl] @ ''</Svg>''\<close>

definition svgToReactNative_App :: "js_value \<Rightarrow> string" where
  "svgToReactNative_App v =
     (case v of
        JString svg0 \<Rightarrow>
          if svg0 = [] then ''// Invalid SVG input''
          else (case svgMatch (sanitize svg0) of
                  None \<Rightarrow> ''// No valid SVG content found''
                | Some (svgAttrs, svgContent) \<Rightarrow>
                    template_App (viewBox svgAttrs) (content_App svgContent))
      | _ \<Rightarrow> ''// Invalid SVG input'')"


text \<open>The test by which the caller tells an error comment from generated source
  (\<^verbatim>\<open>convertAndFormat\<close>, App.jsx 561-565, part_001 214).\<close>

definition is_error_comment :: "string \<Rightarrow> bool" where
  "is_error_comment jsx =
     (startsWith jsx ''// Error'' \<or> startsWith jsx ''// No valid'' \<or> startsWith jsx ''// Invalid'')"

section \<open>Properties of the matcher and of the replacements\<close>

lemma matches_Lit:
  "matches (Lit w) (b, r, c) =
     (if startsWith r w then [(rev w @ b, drop (length w) r, c)] else [])"
proof (induction w arbitrary: b r)
  case Nil
  show ?case by (simp add: startsWith_def)
next
  case (Cons x w)
  show ?case
  proof (cases r)
    case Nil
    then show ?thesis by (simp add: startsWith_def)
  next
    case (Cons y ys)
    then show ?thesis using Cons.IH [of "y # b" ys]
      by (auto simp: startsWith_def)
  qed
qed

declare matches.simps(5,6) [simp del]

lemma in_matches_Star:
  "st' \<in> set (matches (Star e) st) \<longleftrightarrow>
     st' = st \<or> (\<exists>mid \<in> set (matches e st). remaining mid < remaining st
        \<and> st' \<in> set (matches (Star e) mid))"
  by (subst matches.simps(5)) auto

lemma in_matches_LazyStar:
  "st' \<in> set (matches (LazyStar e) st) \<longleftrightarrow>
     st' = st \<or> (\<exists>mid \<in> set (matches e st). remaining mid < remaining st
        \<and> st' \<in> set (matches (LazyStar e) mid))"
  by (subst matches.simps(6)) auto

lemma matches_suffix:
  "st' \<in> set (matches e st) \<Longrightarrow> \<exists>u. rest st = u @ rest st'"
proof (induction e st arbitrary: st' rule: matches.induct)
  case (1 p b r c)
  then show ?case by (cases r) (auto simp: rest_def split: if_splits)
next
  case (2 st)
  then show ?case by simp
next
  case (3 e1 e2 st)
  from "3.prems" obtain mid where m: "mid \<in> set (matches e1 st)" "st' \<in> set (matches e2 mid)"
    by auto
  from "3.IH"(1) [OF m(1)] obtain u where u: "rest st = u @ rest mid" by blast
  from "3.IH"(2) [OF m(1) m(2)] obtain v where v: "rest mid = v @ rest st'" by blast
  show ?case using u v by simp
next
  case (4 e1 e2 st)
  from "4.prems" have "st' \<in> set (matches e1 st) \<or> st' \<in> set (matches e2 st)" by simp
  then show ?case using "4.IH" by blast
next
  case (5 e st)
  show ?case
  proof (cases "st' = st")
    case True
    then show ?thesis by simp
  next
    case False
    with "5.prems" obtain mid where m: "mid \<in> set (matches e st)"
      "remaining mid < remaining st" "st' \<in> set (matches (Star e) mid)"
      using in_matches_Star [of st' e st] by blast
    from "5.IH"(1) [OF m(1)] obtain u where u: "rest st = u @ rest mid" by blast
    have "mid \<in> set (filter (\<lambda>st'. remaining st' < remaining st) (matches e st))"
      using m by simp
    from "5.IH"(2) [OF this m(3)] obtain v where v: "rest mid = v @ rest st'" by blast
    show ?thesis using u v by simp
  qed
next
  case (6 e st)
  show ?case
  proof (cases "st' = st")
    case True
    then show ?thesis by simp
  next
    case False
    with "6.prems" obtain mid where m: "mid \<in> set (matches e st)"
      "remaining mid < remaining st" "st' \<in> set (matches (LazyStar e) mid)"
      using in_matches_LazyStar [of st' e st] by blast
    from "6.IH"(1) [OF m(1)] obtain u where u: "rest st = u @ rest mid" by blast
    have "mid \<in> set (filter (\<lambda>st'. remaining st' < remaining st) (matches e st))"
      using m by simp
    from "6.IH"(2) [OF this m(3)] obtain v where v: "rest mid = v @ rest st'" by blast
    show ?thesis using u v by simp
  qed
next
  case (7 i e b r c)
  from "7.prems" obtain b' r' c' where m: "(b', r', c') \<in> set (matches e (b, r, c))"
    "st' = (b', r', (i, take (length r - length r') r) # c')"
    by auto
  from "7.IH" [OF m(1)] show ?case using m(2) by (simp add: rest_def)
next
  case (8 i b r c)
  show ?case
  proof (cases "map_of c i")
    case None
    with "8.prems" show ?thesis by simp
  next
    case (Some w)
    with "8.prems" have "take (length w) r = w" "st' = (rev w @ b, drop (length w) r, c)"
      by (auto split: if_splits)
    then have "rest (b, r, c) = w @ rest st'"
      by (simp add: rest_def) (metis append_take_drop_id)
    then show ?thesis by blast
  qed
next
  case (9 b r c)
  then show ?case by (auto split: if_splits)
next
  case (10 p b r c)
  then show ?case by (auto split: if_splits)
qed


declare replace_from.simps [simp del]

lemma first_match_None: "matches e (b, r, []) = [] \<Longrightarrow> first_match e b r = None"
  by (simp add: first_match_def)

lemma replace_from_unmatched:
  "search_from e b r = None \<Longrightarrow> replace_from e f b r = r"
proof (induction r arbitrary: b)
  case Nil
  then have "first_match e b [] = None" by (simp split: option.splits prod.splits)
  then show ?case by (subst replace_from.simps) simp
next
  case (Cons x xs)
  from Cons.prems have fm: "first_match e b (x # xs) = None"
    and rest: "search_from e (x # b) xs = None"
    by (simp_all split: option.splits prod.splits)
  show ?case using fm Cons.IH [OF rest] by (subst replace_from.simps) simp
qed


lemma includes_str_suffix: "startsWith v w \<Longrightarrow> includes_str (u @ v) w"
proof (induction u)
  case Nil
  then show ?case by (cases v) (simp_all add: startsWith_def)
next
  case (Cons x u)
  then show ?case by simp
qed

lemma not_includes_suffix: "\<not> includes_str (u @ v) w \<Longrightarrow> \<not> includes_str v w"
  by (induction u) auto

text \<open>An expression that needs the text \<open>w\<close> somewhere has no match in a text without \<open>w\<close>.\<close>

lemma needs_Lit: "matches (Lit w) st \<noteq> [] \<Longrightarrow> includes_str (rest st) w"
  using matches_Lit [of w "fst st" "fst (snd st)" "snd (snd st)"] includes_str_suffix [of _ w "[]"]
  by (auto simp: rest_def split: if_splits)

lemma needs_Cat_left:
  assumes "\<And>st. matches e1 st \<noteq> [] \<Longrightarrow> includes_str (rest st) w"
    and "matches (Cat e1 e2) st \<noteq> []"
  shows "includes_str (rest st) w"
proof -
  from assms(2) have "matches e1 st \<noteq> []" by auto
  then show ?thesis by (rule assms(1))
qed

lemma needs_Cat_right:
  assumes "\<And>st. matches e2 st \<noteq> [] \<Longrightarrow> includes_str (rest st) w"
    and "matches (Cat e1 e2) st \<noteq> []"
  shows "includes_str (rest st) w"
proof -
  from assms(2) obtain mid where mid: "mid \<in> set (matches e1 st)" "matches e2 mid \<noteq> []"
    by auto
  from assms(1) [OF mid(2)] have "includes_str (rest mid) w" .
  moreover from matches_suffix [OF mid(1)] obtain u where "rest st = u @ rest mid" by blast
  ultimately show ?thesis
    using not_includes_suffix [of u "rest mid" w] by auto
qed

lemma needs_search:
  assumes "\<And>st. matches e st \<noteq> [] \<Longrightarrow> includes_str (rest st) w"
    and "\<not> includes_str r w"
  shows "search_from e b r = None"
  using assms(2)
proof (induction r arbitrary: b)
  case Nil
  have "matches e (b, [], []) = []"
    using assms(1) [of "(b, [], [])"] Nil by (auto simp: rest_def)
  then show ?case by (simp add: first_match_None)
next
  case (Cons x xs)
  have "matches e (b, x # xs, []) = []"
    using assms(1) [of "(b, x # xs, [])"] Cons.prems by (auto simp: rest_def)
  then have "first_match e b (x # xs) = None"
    by (rule first_match_None)
  moreover have "\<not> includes_str xs w" using Cons.prems by simp
  ultimately show ?case using Cons.IH by simp
qed

lemma needs_replace_all:
  assumes "\<And>st. matches e st \<noteq> [] \<Longrightarrow> includes_str (rest st) w"
    and "\<not> includes_str s w"
  shows "replace_all e f s = s"
  using needs_search [OF assms] by (simp add: replace_all_def replace_from_unmatched)

lemma upt_0_Suc: "[0..<Suc m] = 0 # map Suc [0..<m]"
  by (simp add: upt_conv_Cons map_Suc_upt del: upt_Suc)

text \<open>The ends of \<^verbatim>\<open>[class]*?\<close> and of \<^verbatim>\<open>[class]*\<close>: after 0, 1, ... characters of the longest run of
  the class, and the same from the longest down.\<close>

lemma after_Cons: "after (Suc k) (b, x # xs, c) = after k (x # b, xs, c)"
  by (simp add: after_def)

lemma after_0: "after 0 st = st"
  by (simp add: after_def)

lemma matches_LazyStar_Chr:
  "matches (LazyStar (Chr p)) (b, r, c) =
     map (\<lambda>k. after k (b, r, c)) [0..<Suc (length (takeWhile p r))]"
proof (induction r arbitrary: b)
  case Nil
  show ?case by (subst matches.simps(6)) (simp add: after_def)
next
  case (Cons x xs)
  show ?case
  proof (cases "p x")
    case False
    then show ?thesis by (subst matches.simps(6)) (simp add: after_def)
  next
    case True
    have "matches (LazyStar (Chr p)) (b, x # xs, c) =
        (b, x # xs, c) # matches (LazyStar (Chr p)) (x # b, xs, c)"
      using True by (subst matches.simps(6)) (simp add: remaining_def)
    also have "\<dots> = after 0 (b, x # xs, c) #
        map (\<lambda>k. after (Suc k) (b, x # xs, c)) [0..<Suc (length (takeWhile p xs))]"
      by (simp only: Cons.IH after_Cons after_0)
    also have "\<dots> = map (\<lambda>k. after k (b, x # xs, c)) [0..<Suc (Suc (length (takeWhile p xs)))]"
      by (subst (2) upt_0_Suc) (simp add: comp_def del: upt_Suc)
    finally show ?thesis using True by simp
  qed
qed

lemma matches_Star_Chr:
  "matches (Star (Chr p)) (b, r, c) =
     map (\<lambda>k. after k (b, r, c)) (rev [0..<Suc (length (takeWhile p r))])"
proof (induction r arbitrary: b)
  case Nil
  show ?case by (subst matches.simps(5)) (simp add: after_def)
next
  case (Cons x xs)
  show ?case
  proof (cases "p x")
    case False
    then show ?thesis by (subst matches.simps(5)) (simp add: after_def)
  next
    case True
    have "matches (Star (Chr p)) (b, x # xs, c) =
        matches (Star (Chr p)) (x # b, xs, c) @ [(b, x # xs, c)]"
      using True by (subst matches.simps(5)) (simp add: remaining_def)
    also have "\<dots> = map (\<lambda>k. after (Suc k) (b, x # xs, c))
        (rev [0..<Suc (length (takeWhile p xs))]) @ [after 0 (b, x # xs, c)]"
      by (simp only: Cons.IH after_Cons after_0)
    also have "\<dots> = map (\<lambda>k. after k (b, x # xs, c))
        (rev [0..<Suc (Suc (length (takeWhile p xs)))])"
      by (subst (2) upt_0_Suc) (simp add: comp_def rev_map del: upt_Suc)
    finally show ?thesis using True by simp
  qed
qed


declare Lit.simps [simp del]

lemma matches_Cat_Lit:
  "matches (Cat (Lit w) e) (b, w @ r, c) = matches e (rev w @ b, r, c)"
  by (simp add: matches_Lit startsWith_def)

lemma matches_Cat_Lit_fails:
  "\<not> startsWith r w \<Longrightarrow> matches (Cat (Lit w) e) (b, r, c) = []"
  by (simp add: matches_Lit)

lemma matches_Lit_fails: "\<not> startsWith r w \<Longrightarrow> matches (Lit w) (b, r, c) = []"
  by (simp add: matches_Lit)

lemma matches_Lit_end: "matches (Lit w) (b, w, c) = [(rev w @ b, [], c)]"
  by (simp add: matches_Lit startsWith_def)

text \<open>The first result of a lazy and of a greedy run that is followed by \<open>e\<close>.\<close>

lemma concat_first:
  assumes "\<And>k. k < j \<Longrightarrow> F k = []" and "j < m" and "F j = h # t"
  shows "\<exists>t'. concat (map F [0..<m]) = h # t'"
proof -
  have split: "[0..<m] = [0..<j] @ j # [Suc j..<m]"
    using assms(2) by (metis less_imp_le_nat upt_add_eq_append upt_conv_Cons zero_le
        le_add_diff_inverse)
  have c0: "concat (map F [0..<j]) = []"
    using assms(1) by simp
  have "concat (map F [0..<m]) = concat (map F [0..<j]) @ F j @ concat (map F [Suc j..<m])"
    by (subst split) simp
  then have "concat (map F [0..<m]) = h # (t @ concat (map F [Suc j..<m]))"
    by (simp only: c0 assms(3) append_Nil append_Cons)
  then show ?thesis by blast
qed

lemma set_capture_after:
  "k \<le> length R \<Longrightarrow>
     (\<lambda>(b', r', c'). (b', r', (i, take (length R - length r') R) # c')) (after k (b, R, c)) =
     (rev (take k R) @ b, drop k R, (i, take k R) # c)"
  by (simp add: after_def)

lemma concat_last_first:
  assumes "F j = h # t"
  shows "\<exists>t'. concat (map F (rev [0..<Suc j])) = h # t'"
  using assms by simp

lemma head_Cat_LazyStar_Grp:
  assumes run: "\<forall>x \<in> set u. p x"
    and early: "\<And>k. k < length u \<Longrightarrow>
        matches e (rev (take k u) @ b, drop k u @ r, (i, take k u) # c) = []"
    and at: "matches e (rev u @ b, r, (i, u) # c) = h # t"
  shows "\<exists>t'. matches (Cat (Grp i (LazyStar (Chr p))) e) (b, u @ r, c) = h # t'"
proof -
  let ?n = "length (takeWhile p (u @ r))"
  let ?F = "\<lambda>k. matches e (rev (take k (u @ r)) @ b, drop k (u @ r), (i, take k (u @ r)) # c)"
  have len: "length u \<le> ?n"
    using run by simp
  have n_le: "?n \<le> length (u @ r)"
    by (rule length_takeWhile_le)
  have "matches (Cat (Grp i (LazyStar (Chr p))) e) (b, u @ r, c) =
      concat (map (\<lambda>k. matches e ((\<lambda>(b', r', c'). (b', r', (i, take (length (u @ r) - length r') (u @ r)) # c'))
        (after k (b, u @ r, c)))) [0..<Suc ?n])"
    by (simp add: matches_LazyStar_Chr comp_def del: upt_Suc)
  also have "\<dots> = concat (map ?F [0..<Suc ?n])"
  proof -
    have "\<And>k. k \<in> set [0..<Suc ?n] \<Longrightarrow>
        (\<lambda>(b', r', c'). (b', r', (i, take (length (u @ r) - length r') (u @ r)) # c'))
          (after k (b, u @ r, c)) =
        (rev (take k (u @ r)) @ b, drop k (u @ r), (i, take k (u @ r)) # c)"
    proof -
      fix k assume "k \<in> set [0..<Suc ?n]"
      then have "k \<le> length (u @ r)" using n_le by auto
      then show "(\<lambda>(b', r', c'). (b', r', (i, take (length (u @ r) - length r') (u @ r)) # c'))
          (after k (b, u @ r, c)) =
        (rev (take k (u @ r)) @ b, drop k (u @ r), (i, take k (u @ r)) # c)"
        by (rule set_capture_after)
    qed
    then show ?thesis
      by (intro arg_cong [where f = concat] map_cong) (simp_all del: upt_Suc)
  qed
  finally have eq: "matches (Cat (Grp i (LazyStar (Chr p))) e) (b, u @ r, c) =
      concat (map ?F [0..<Suc ?n])" .
  have "\<And>k. k < length u \<Longrightarrow> ?F k = []"
    using early by simp
  moreover have "length u < Suc ?n" using len by simp
  moreover have "?F (length u) = h # t" using at by simp
  ultimately obtain t' where "concat (map ?F [0..<Suc ?n]) = h # t'"
    using concat_first [of "length u" ?F "Suc ?n" h t] by blast
  with eq show ?thesis by simp
qed

lemma head_Cat_Star:
  assumes run: "\<forall>x \<in> set u. p x"
    and stop: "case r of [] \<Rightarrow> True | x # _ \<Rightarrow> \<not> p x"
    and at: "matches e (rev u @ b, r, c) = h # t"
  shows "\<exists>t'. matches (Cat (Star (Chr p)) e) (b, u @ r, c) = h # t'"
proof -
  have tw: "takeWhile p (u @ r) = u"
    using run stop by (cases r) simp_all
  have "matches (Cat (Star (Chr p)) e) (b, u @ r, c) =
      concat (map (\<lambda>k. matches e (after k (b, u @ r, c))) (rev [0..<Suc (length u)]))"
    by (simp add: matches_Star_Chr tw comp_def del: upt_Suc)
  moreover have "matches e (after (length u) (b, u @ r, c)) = h # t"
    using at by (simp add: after_def)
  ultimately show ?thesis
    using concat_last_first [of "\<lambda>k. matches e (after k (b, u @ r, c))" "length u" h t]
    by simp
qed


lemma take_append_short: "n \<le> length X \<Longrightarrow> take n (X @ Y) = take n X"
  by simp

lemma startsWith_shorten:
  assumes "A \<noteq> []" and "startsWith (A @ w0 @ q # r) (w0 @ [q])"
  shows "startsWith (A @ w0) (w0 @ [q])"
proof -
  have "length (w0 @ [q]) \<le> length (A @ w0)"
    using assms(1) by (cases A) simp_all
  from take_append_short [OF this, of "q # r"] assms(2)
  show ?thesis by (simp add: startsWith_def)
qed

lemma no_early_occurrence:
  assumes "\<not> includes_str (pre @ w0) (w0 @ [q])" and "k < length pre"
  shows "\<not> startsWith (drop k pre @ (w0 @ [q]) @ r) (w0 @ [q])"
proof
  assume sw: "startsWith (drop k pre @ (w0 @ [q]) @ r) (w0 @ [q])"
  have ne: "drop k pre \<noteq> []" using assms(2) by simp
  from sw have "startsWith (drop k pre @ w0 @ q # r) (w0 @ [q])" by simp
  from startsWith_shorten [OF ne this] have "startsWith (drop k pre @ w0) (w0 @ [q])" .
  then have "includes_str (take k pre @ drop k pre @ w0) (w0 @ [q])"
    by (rule includes_str_suffix)
  moreover have "take k pre @ drop k pre @ w0 = pre @ w0"
    by (simp add: append_assoc [symmetric] del: append_assoc)
  ultimately show False using assms(1) by simp
qed

lemma no_early_close:
  assumes "CHR ''>'' \<notin> set post" and "k < length post"
  shows "\<not> startsWith (drop k post @ ''/>'') ''/>''"
proof -
  from assms(2) obtain y ys where d: "drop k post = y # ys"
    by (cases "drop k post") simp_all
  have "set (drop k post) \<subseteq> set post" by (rule set_drop_subset)
  with d assms(1) have "CHR ''>'' \<notin> set ys" by auto
  then show ?thesis
    unfolding d by (cases ys) (auto simp: startsWith_def)
qed

lemma fill_self_closing_head:
  assumes pre: "CHR ''>'' \<notin> set pre"
    and first: \<open>\<not> includes_str (pre @ ''fill='') ''fill="''\<close>
    and v: "CHR 0x22 \<notin> set v"
    and post: "CHR ''>'' \<notin> set post"
  shows \<open>\<exists>t. matches rx_fill_self_closing
      (b, ''<Path'' @ pre @ ''fill="'' @ v @ ''"'' @ post @ ''/>'', []) =
      (rev (''<Path'' @ pre @ ''fill="'' @ v @ ''"'' @ post @ ''/>'') @ b, [],
        [(2, post), (1, pre)]) # t\<close>
proof -
  let ?E5 = "Cat (Grp 2 (LazyStar (Chr not_gt))) (Lit ''/>'')"
  let ?E4 = \<open>Cat (Lit ''"'') ?E5\<close>
  let ?E3 = "Cat (Star (Chr not_dquote)) ?E4"
  let ?E2 = \<open>Cat (Lit ''fill="'') ?E3\<close>
  let ?E1 = "Cat (Grp 1 (LazyStar (Chr not_gt))) ?E2"
  let ?b1 = "rev ''<Path'' @ b"
  let ?c1 = "[(1, pre)]"
  let ?b2 = "rev pre @ ?b1"
  let ?b3 = \<open>rev ''fill="'' @ ?b2\<close>
  let ?b4 = "rev v @ ?b3"
  let ?b5 = \<open>rev ''"'' @ ?b4\<close>
  let ?h = "(rev ''/>'' @ rev post @ ?b5, [], (2, post) # ?c1)"
  have e5: "\<exists>t. matches ?E5 (?b5, post @ ''/>'', ?c1) = ?h # t"
  proof (rule head_Cat_LazyStar_Grp)
    show "\<forall>x \<in> set post. not_gt x" using post by (auto simp: not_gt_def)
    show "matches (Lit ''/>'') (rev (take k post) @ ?b5, drop k post @ ''/>'',
        (2, take k post) # ?c1) = []" if "k < length post" for k
      using no_early_close [OF post that] by (rule matches_Lit_fails)
    show "matches (Lit ''/>'') (rev post @ ?b5, ''/>'', (2, post) # ?c1) = ?h # []"
      by (rule matches_Lit_end)
  qed
  then obtain t5 where t5: "matches ?E5 (?b5, post @ ''/>'', ?c1) = ?h # t5" by blast
  have e4: \<open>matches ?E4 (?b4, ''"'' @ post @ ''/>'', ?c1) = ?h # t5\<close>
    using t5 by (simp only: matches_Cat_Lit)
  have \<open>\<exists>t. matches ?E3 (?b3, v @ ''"'' @ post @ ''/>'', ?c1) = ?h # t\<close>
  proof (rule head_Cat_Star)
    show "\<forall>x \<in> set v. not_dquote x" using v by (auto simp: not_dquote_def)
    show \<open>case ''"'' @ post @ ''/>'' of [] \<Rightarrow> True | x # _ \<Rightarrow> \<not> not_dquote x\<close>
      by (simp add: not_dquote_def)
    show \<open>matches ?E4 (rev v @ ?b3, ''"'' @ post @ ''/>'', ?c1) = ?h # t5\<close>
      by (rule e4)
  qed
  then obtain t3 where t3: \<open>matches ?E3 (?b3, v @ ''"'' @ post @ ''/>'', ?c1) = ?h # t3\<close>
    by blast
  have e2: \<open>matches ?E2 (?b2, ''fill="'' @ v @ ''"'' @ post @ ''/>'', ?c1) = ?h # t3\<close>
    using t3 by (simp only: matches_Cat_Lit)
  have \<open>\<exists>t. matches ?E1 (?b1, pre @ ''fill="'' @ v @ ''"'' @ post @ ''/>'', []) = ?h # t\<close>
  proof (rule head_Cat_LazyStar_Grp)
    show "\<forall>x \<in> set pre. not_gt x" using pre by (auto simp: not_gt_def)
    show \<open>matches ?E2 (rev (take k pre) @ ?b1,
        drop k pre @ ''fill="'' @ v @ ''"'' @ post @ ''/>'', [(1, take k pre)]) = []\<close>
      if "k < length pre" for k
    proof (rule matches_Cat_Lit_fails)
      have \<open>\<not> includes_str (pre @ ''fill='') (''fill='' @ [CHR 0x22])\<close>
        using first by simp
      from no_early_occurrence [OF this that]
      show \<open>\<not> startsWith (drop k pre @ ''fill="'' @ v @ ''"'' @ post @ ''/>'') ''fill="''\<close>
        by simp
    qed
    show \<open>matches ?E2 (rev pre @ ?b1, ''fill="'' @ v @ ''"'' @ post @ ''/>'', ?c1) = ?h # t3\<close>
      by (rule e2)
  qed
  then obtain t1 where
    t1: \<open>matches ?E1 (?b1, pre @ ''fill="'' @ v @ ''"'' @ post @ ''/>'', []) = ?h # t1\<close>
    by blast
  have \<open>matches rx_fill_self_closing
      (b, ''<Path'' @ pre @ ''fill="'' @ v @ ''"'' @ post @ ''/>'', []) = ?h # t1\<close>
    unfolding rx_fill_self_closing_def Seq.simps using t1 by (simp only: matches_Cat_Lit)
  then show ?thesis by simp
qed


lemma first_match_head:
  "matches e (b, r, []) = st # t \<Longrightarrow>
     first_match e b r = Some (length r - remaining st, snd (snd st))"
  by (simp add: first_match_def)

lemma replace_from_end: "first_match e b [] = None \<Longrightarrow> replace_from e f b [] = []"
  by (subst replace_from.simps) simp

lemma replace_from_whole:
  assumes "first_match e b r = Some (length r, c)" and "r \<noteq> []"
    and "first_match e (rev r @ b) [] = None"
  shows "replace_from e f b r = f r c"
  using assms by (subst replace_from.simps) (simp add: replace_from_end)

text \<open>A text that ends with \<^verbatim>\<open>/>\<close> and has no other \<^verbatim>\<open>>\<close> does not contain a closing tag.\<close>

lemma no_occurrence_at_end:
  assumes "g \<notin> set X" and "a \<noteq> h" and "a \<noteq> g"
  shows "\<not> includes_str (X @ [a, g]) (w @ [h, g])"
  using assms(1)
proof (induction X)
  case Nil
  have "\<not> startsWith [a, g] (w @ [h, g])"
    using assms(2) by (cases w) (auto simp: startsWith_def)
  moreover have "\<not> startsWith [g] (w @ [h, g])"
    by (auto simp: startsWith_def)
  ultimately show ?case by simp
next
  case (Cons x X)
  let ?S = "x # X @ [a, g]"
  let ?n = "length (w @ [h, g])"
  have "\<not> startsWith ?S (w @ [h, g])"
  proof
    assume "startsWith ?S (w @ [h, g])"
    then have tk: "take ?n ?S = w @ [h, g]" by (simp add: startsWith_def)
    have "length ?S \<le> ?n"
    proof (rule ccontr)
      assume "\<not> length ?S \<le> ?n"
      then have "?n \<le> length (x # X @ [a])" by simp
      then have "take ?n ((x # X @ [a]) @ [g]) = take ?n (x # X @ [a])"
        by (rule take_append_short)
      moreover have "?S = (x # X @ [a]) @ [g]" by simp
      ultimately have "take ?n ?S = take ?n (x # X @ [a])" by (simp only:)
      then have "set (take ?n ?S) \<subseteq> set (x # X @ [a])"
        by (simp only: set_take_subset)
      moreover have "g \<in> set (take ?n ?S)" by (simp only: tk) simp
      ultimately show False using Cons.prems assms(3) by auto
    qed
    then have "take ?n ?S = ?S" by simp
    with tk have "(x # X @ [a]) @ [g] = (w @ [h]) @ [g]" by simp
    then have "(x # X) @ [a] = w @ [h]" by simp
    then have "a = h" by (simp only: append1_eq_conv)
    with assms(2) show False by simp
  qed
  moreover have "\<not> includes_str (X @ [a, g]) (w @ [h, g])"
    using Cons by simp
  ultimately show ?case by simp
qed


lemma fill_self_closing_needs_fill:
  \<open>matches rx_fill_self_closing st \<noteq> [] \<Longrightarrow> includes_str (rest st) ''fill="''\<close>
  unfolding rx_fill_self_closing_def Seq.simps
  by (erule needs_Cat_right [rotated], erule needs_Cat_right [rotated],
      erule needs_Cat_left [rotated], erule needs_Lit)

lemma fill_paired_needs_fill:
  \<open>matches rx_fill_paired st \<noteq> [] \<Longrightarrow> includes_str (rest st) ''fill="''\<close>
  unfolding rx_fill_paired_def Seq.simps
  by (erule needs_Cat_right [rotated], erule needs_Cat_right [rotated],
      erule needs_Cat_left [rotated], erule needs_Lit)

lemma fill_paired_needs_close:
  \<open>matches rx_fill_paired st \<noteq> [] \<Longrightarrow> includes_str (rest st) ''</Path>''\<close>
  unfolding rx_fill_paired_def Seq.simps
  by (erule needs_Cat_right [rotated], erule needs_Cat_right [rotated],
      erule needs_Cat_right [rotated], erule needs_Cat_right [rotated],
      erule needs_Cat_right [rotated], erule needs_Cat_right [rotated],
      erule needs_Cat_right [rotated], erule needs_Cat_right [rotated], erule needs_Lit)

lemma fill_App_needs_fill:
  \<open>matches rx_fill_App st \<noteq> [] \<Longrightarrow> includes_str (rest st) ''fill''\<close>
  unfolding rx_fill_App_def Seq.simps
  by (erule needs_Cat_right [rotated], erule needs_Cat_right [rotated],
      erule needs_Cat_right [rotated], erule needs_Cat_left [rotated], erule needs_Lit)

lemma apply_fillColor_without_fill:
  \<open>\<not> includes_str s ''fill="'' \<Longrightarrow> apply_fillColor s = s\<close>
  by (simp add: apply_fillColor_def needs_replace_all [OF fill_self_closing_needs_fill]
      needs_replace_all [OF fill_paired_needs_fill])

lemma apply_fillColor_App_without_fill:
  \<open>\<not> includes_str s ''fill'' \<Longrightarrow> apply_fillColor_App s = s\<close>
  by (simp add: apply_fillColor_App_def needs_replace_all [OF fill_App_needs_fill])

lemma fill_self_closing_replaced:
  assumes pre: "CHR ''>'' \<notin> set pre"
    and first: \<open>\<not> includes_str (pre @ ''fill='') ''fill="''\<close>
    and v: "CHR 0x22 \<notin> set v"
    and post: "CHR ''>'' \<notin> set post"
  shows \<open>replace_all rx_fill_self_closing fill_self_closing_fn
      (''<Path'' @ pre @ ''fill="'' @ v @ ''"'' @ post @ ''/>'') =
      ''<Path'' @ pre @ ''fill={fillColor}'' @ post @ '' />''\<close>
proof -
  let ?N = \<open>''<Path'' @ pre @ ''fill="'' @ v @ ''"'' @ post @ ''/>''\<close>
  from fill_self_closing_head [OF assms, of "[]"] obtain t where
    "matches rx_fill_self_closing ([], ?N, []) = (rev ?N @ [], [], [(2, post), (1, pre)]) # t"
    by blast
  from first_match_head [OF this]
  have fm: "first_match rx_fill_self_closing [] ?N = Some (length ?N, [(2, post), (1, pre)])"
    by (simp add: remaining_def)
  have "matches rx_fill_self_closing (rev ?N @ [], [], []) = []"
    unfolding rx_fill_self_closing_def Seq.simps
    by (rule matches_Cat_Lit_fails) (simp add: startsWith_def)
  then have "first_match rx_fill_self_closing (rev ?N @ []) [] = None"
    by (rule first_match_None)
  from replace_from_whole [OF fm _ this, of fill_self_closing_fn]
  show ?thesis
    by (simp add: replace_all_def fill_self_closing_fn_def grp_def)
qed

lemma fill_replaced:
  assumes pre: "CHR ''>'' \<notin> set pre"
    and first: \<open>\<not> includes_str (pre @ ''fill='') ''fill="''\<close>
    and v: "CHR 0x22 \<notin> set v"
    and post: "CHR ''>'' \<notin> set post"
  shows \<open>apply_fillColor (''<Path'' @ pre @ ''fill="'' @ v @ ''"'' @ post @ ''/>'') =
      ''<Path'' @ pre @ ''fill={fillColor}'' @ post @ '' />''\<close>
proof -
  let ?X = "''<Path'' @ pre @ ''fill={fillColor}'' @ post @ '' ''"
  have "CHR ''>'' \<notin> set ?X" using pre post by simp
  from no_occurrence_at_end [OF this, of "CHR ''/''" "CHR ''h''" "''</Pat''"]
  have "\<not> includes_str (?X @ ''/>'') ''</Path>''" by simp
  then have paired: "replace_all rx_fill_paired fill_paired_fn (?X @ ''/>'') = ?X @ ''/>''"
    by (rule needs_replace_all [where w = "''</Path>''", rotated]) (rule fill_paired_needs_close)
  have \<open>replace_all rx_fill_self_closing fill_self_closing_fn
      (''<Path'' @ pre @ ''fill="'' @ v @ ''"'' @ post @ ''/>'') = ?X @ ''/>''\<close>
    using fill_self_closing_replaced [OF assms] by simp
  then have \<open>apply_fillColor (''<Path'' @ pre @ ''fill="'' @ v @ ''"'' @ post @ ''/>'') =
      ?X @ ''/>''\<close>
    unfolding apply_fillColor_def by (simp only: paired)
  then show ?thesis by simp
qed






lemma search_from_first_match:
  "search_from e b r = Some (p, m, c, q) \<Longrightarrow>
     \<exists>b' u r' n. r = u @ r' \<and> first_match e b' r' = Some (n, c)"
proof (induction r arbitrary: b)
  case Nil
  then show ?case by (auto split: option.splits)
next
  case (Cons x xs)
  show ?case
  proof (cases "first_match e b (x # xs)")
    case None
    with Cons.prems have "search_from e (x # b) xs = Some (p, m, c, q)" by simp
    from Cons.IH [OF this] obtain b' u r' n where
      "xs = u @ r'" "first_match e b' r' = Some (n, c)" by blast
    then have "x # xs = (x # u) @ r'" by simp
    then show ?thesis using \<open>first_match e b' r' = Some (n, c)\<close> by blast
  next
    case (Some a)
    with Cons.prems have "first_match e b (x # xs) = Some (fst a, c)"
      by (cases a) (simp add: split_def)
    moreover have "x # xs = [] @ (x # xs)" by simp
    ultimately show ?thesis by blast
  qed
qed






lemma in_matches_Star_Chr:
  assumes "st' \<in> set (matches (Star (Chr p)) (b, r, c))"
  shows "\<exists>k \<le> length (takeWhile p r). st' = after k (b, r, c)"
  using assms unfolding matches_Star_Chr by (auto simp: less_Suc_eq_le simp del: upt_Suc)

lemma in_matches_LazyStar_Chr:
  assumes "st' \<in> set (matches (LazyStar (Chr p)) (b, r, c))"
  shows "\<exists>k \<le> length (takeWhile p r). st' = after k (b, r, c)"
  using assms unfolding matches_LazyStar_Chr by (auto simp: less_Suc_eq_le simp del: upt_Suc)

lemma take_run:
  assumes "k \<le> length (takeWhile p r)"
  shows "\<forall>x \<in> set (take k r). p x"
proof -
  have "take k r = take k (takeWhile p r @ dropWhile p r)" by simp
  also have "\<dots> = take k (takeWhile p r)" using assms by (rule take_append_short)
  finally have "set (take k r) \<subseteq> set (takeWhile p r)" by (simp add: set_take_subset)
  then show ?thesis by (auto dest: set_takeWhileD)
qed



lemma in_matches_Cat:
  "st' \<in> set (matches (Cat e1 e2) st) \<longleftrightarrow>
     (\<exists>mid \<in> set (matches e1 st). st' \<in> set (matches e2 mid))"
  by auto














text \<open>The same for \<^verbatim>\<open>/<Path([^>]*)\s+fill\s*=\s*"[^"]*"([^>]*>)/g\<close>, whose first group is greedy.\<close>

lemma concat_rev_first:
  assumes "\<And>k. j < k \<Longrightarrow> k < m \<Longrightarrow> F k = []" and "j < m" and "F j = h # t"
  shows "\<exists>t'. concat (map F (rev [0..<m])) = h # t'"
proof -
  have split: "[0..<m] = [0..<j] @ j # [Suc j..<m]"
    using assms(2) by (metis less_imp_le_nat upt_add_eq_append upt_conv_Cons zero_le
        le_add_diff_inverse)
  have c0: "concat (map F (rev [Suc j..<m])) = []"
    using assms(1) by auto
  have "concat (map F (rev [0..<m])) =
      concat (map F (rev [Suc j..<m])) @ F j @ concat (map F (rev [0..<j]))"
    by (subst split) simp
  then have "concat (map F (rev [0..<m])) = h # (t @ concat (map F (rev [0..<j])))"
    by (simp only: c0 assms(3) append_Nil append_Cons)
  then show ?thesis by blast
qed

lemma head_Cat_Star_Grp:
  assumes run: "\<forall>x \<in> set u. p x"
    and later: "\<And>k. length u < k \<Longrightarrow> k \<le> length (u @ r) \<Longrightarrow>
        matches e (rev (take k (u @ r)) @ b, drop k (u @ r), (i, take k (u @ r)) # c) = []"
    and at: "matches e (rev u @ b, r, (i, u) # c) = h # t"
  shows "\<exists>t'. matches (Cat (Grp i (Star (Chr p))) e) (b, u @ r, c) = h # t'"
proof -
  let ?n = "length (takeWhile p (u @ r))"
  let ?F = "\<lambda>k. matches e (rev (take k (u @ r)) @ b, drop k (u @ r), (i, take k (u @ r)) # c)"
  have len: "length u \<le> ?n"
    using run by simp
  have n_le: "?n \<le> length (u @ r)"
    by (rule length_takeWhile_le)
  have "matches (Cat (Grp i (Star (Chr p))) e) (b, u @ r, c) =
      concat (map (\<lambda>k. matches e ((\<lambda>(b', r', c'). (b', r', (i, take (length (u @ r) - length r') (u @ r)) # c'))
        (after k (b, u @ r, c)))) (rev [0..<Suc ?n]))"
    by (simp add: matches_Star_Chr comp_def del: upt_Suc)
  also have "\<dots> = concat (map ?F (rev [0..<Suc ?n]))"
  proof -
    have "\<And>k. k \<in> set (rev [0..<Suc ?n]) \<Longrightarrow>
        (\<lambda>(b', r', c'). (b', r', (i, take (length (u @ r) - length r') (u @ r)) # c'))
          (after k (b, u @ r, c)) =
        (rev (take k (u @ r)) @ b, drop k (u @ r), (i, take k (u @ r)) # c)"
    proof -
      fix k assume "k \<in> set (rev [0..<Suc ?n])"
      then have "k \<le> length (u @ r)" using n_le by auto
      then show "(\<lambda>(b', r', c'). (b', r', (i, take (length (u @ r) - length r') (u @ r)) # c'))
          (after k (b, u @ r, c)) =
        (rev (take k (u @ r)) @ b, drop k (u @ r), (i, take k (u @ r)) # c)"
        by (rule set_capture_after)
    qed
    then show ?thesis
      by (intro arg_cong [where f = concat] map_cong) (simp_all del: upt_Suc)
  qed
  finally have eq: "matches (Cat (Grp i (Star (Chr p))) e) (b, u @ r, c) =
      concat (map ?F (rev [0..<Suc ?n]))" .
  have "\<And>k. length u < k \<Longrightarrow> k < Suc ?n \<Longrightarrow> ?F k = []"
    using later n_le by simp
  moreover have "length u < Suc ?n" using len by simp
  moreover have "?F (length u) = h # t" using at by simp
  ultimately obtain t' where "concat (map ?F (rev [0..<Suc ?n])) = h # t'"
    using concat_rev_first [of "length u" "Suc ?n" ?F h t] by blast
  with eq show ?thesis by simp
qed

lemma matches_Cat_Plus_Chr:
  "matches (Cat (Plus (Chr p)) e) (b, x # r, c) =
     (if p x then matches (Cat (Star (Chr p)) e) (x # b, r, c) else [])"
  by (simp add: Plus_def)

lemma matches_Cat_Plus_Chr_Nil: "matches (Cat (Plus (Chr p)) e) (b, [], c) = []"
  by (simp add: Plus_def)

lemma head_Cat_Star_none:
  assumes "case r of [] \<Rightarrow> True | x # _ \<Rightarrow> \<not> p x" and "matches e (b, r, c) = h # t"
  shows "\<exists>t'. matches (Cat (Star (Chr p)) e) (b, r, c) = h # t'"
  using head_Cat_Star [of "[]" p r e b c h t] assms by simp

lemma includes_str_without_last:
  assumes "includes_str (W @ [g]) w" and "g \<notin> set w" and "w \<noteq> []"
  shows "includes_str W w"
  using assms(1)
proof (induction W)
  case Nil
  have "\<not> startsWith [g] w"
  proof
    assume "startsWith [g] w"
    then have "take (length w) [g] = w" by (simp add: startsWith_def)
    then have "w = [g]" using assms(3) by (cases w) (auto split: if_splits)
    with assms(2) show False by simp
  qed
  with Nil assms(3) show ?case by simp
next
  case (Cons x W)
  show ?case
  proof (cases "startsWith (x # W @ [g]) w")
    case False
    with Cons show ?thesis by simp
  next
    case True
    then have tk: "take (length w) ((x # W) @ [g]) = w" by (simp add: startsWith_def)
    have "length w \<le> length (x # W)"
    proof (rule ccontr)
      assume "\<not> length w \<le> length (x # W)"
      then have "take (length w) ((x # W) @ [g]) = (x # W) @ [g]" by simp
      with tk have "g \<in> set w" by (metis in_set_conv_decomp)
      with assms(2) show False by simp
    qed
    from take_append_short [OF this, of "[g]"] tk
    have "startsWith (x # W) w" by (simp add: startsWith_def)
    then show ?thesis by simp
  qed
qed

lemma fill_App_head:
  assumes pre: "CHR ''>'' \<notin> set pre"
    and sp: "is_space sp"
    and v: "CHR 0x22 \<notin> set v"
    and post: "CHR ''>'' \<notin> set post"
    and last: \<open>\<not> includes_str (v @ ''"'' @ post) ''fill''\<close>
  shows \<open>\<exists>t. matches rx_fill_App
      (b, ''<Path'' @ pre @ sp # ''fill="'' @ v @ ''"'' @ post @ ''>'', []) =
      (rev (''<Path'' @ pre @ sp # ''fill="'' @ v @ ''"'' @ post @ ''>'') @ b, [],
        [(2, post @ ''>''), (1, pre)]) # t\<close>
proof -
  let ?G2 = "Grp 2 (Cat (Star (Chr not_gt)) (Lit ''>''))"
  let ?E9 = \<open>Cat (Lit ''"'') ?G2\<close>
  let ?E8 = "Cat (Star (Chr not_dquote)) ?E9"
  let ?E7 = \<open>Cat (Lit ''"'') ?E8\<close>
  let ?E6 = "Cat (Star (Chr is_space)) ?E7"
  let ?E5 = "Cat (Lit ''='') ?E6"
  let ?E4 = "Cat (Star (Chr is_space)) ?E5"
  let ?E3 = "Cat (Lit ''fill'') ?E4"
  let ?E2 = "Cat (Plus (Chr is_space)) ?E3"
  let ?tail = \<open>v @ ''"'' @ post @ ''>''\<close>
  let ?b1 = "rev ''<Path'' @ b"
  let ?c1 = "[(1, pre)]"
  let ?b2 = "rev pre @ ?b1"
  let ?b3 = "sp # ?b2"
  let ?b4 = "rev ''fill'' @ ?b3"
  let ?b5 = "rev ''='' @ ?b4"
  let ?b6 = \<open>rev ''"'' @ ?b5\<close>
  let ?b7 = "rev v @ ?b6"
  let ?b8 = \<open>rev ''"'' @ ?b7\<close>
  let ?h = "(rev ''>'' @ rev post @ ?b8, [], (2, post @ ''>'') # ?c1)"
  have "\<exists>t. matches (Cat (Star (Chr not_gt)) (Lit ''>'')) (?b8, post @ ''>'', ?c1) =
      (rev ''>'' @ rev post @ ?b8, [], ?c1) # t"
  proof (rule head_Cat_Star)
    show "\<forall>x \<in> set post. not_gt x" using post by (auto simp: not_gt_def)
    show "case ''>'' of [] \<Rightarrow> True | x # _ \<Rightarrow> \<not> not_gt x" by (simp add: not_gt_def)
    show "matches (Lit ''>'') (rev post @ ?b8, ''>'', ?c1) =
        (rev ''>'' @ rev post @ ?b8, [], ?c1) # []"
      by (rule matches_Lit_end)
  qed
  then obtain t0 where "matches (Cat (Star (Chr not_gt)) (Lit ''>'')) (?b8, post @ ''>'', ?c1) =
      (rev ''>'' @ rev post @ ?b8, [], ?c1) # t0" by blast
  then have "\<exists>t. matches ?G2 (?b8, post @ ''>'', ?c1) = ?h # t"
    by simp
  then obtain t9 where t9: "matches ?G2 (?b8, post @ ''>'', ?c1) = ?h # t9" by blast
  have e9: \<open>matches ?E9 (?b7, ''"'' @ post @ ''>'', ?c1) = ?h # t9\<close>
    using t9 by (simp only: matches_Cat_Lit)
  have \<open>\<exists>t. matches ?E8 (?b6, v @ ''"'' @ post @ ''>'', ?c1) = ?h # t\<close>
  proof (rule head_Cat_Star)
    show "\<forall>x \<in> set v. not_dquote x" using v by (auto simp: not_dquote_def)
    show \<open>case ''"'' @ post @ ''>'' of [] \<Rightarrow> True | x # _ \<Rightarrow> \<not> not_dquote x\<close>
      by (simp add: not_dquote_def)
    show \<open>matches ?E9 (rev v @ ?b6, ''"'' @ post @ ''>'', ?c1) = ?h # t9\<close>
      by (rule e9)
  qed
  then obtain t8 where t8: "matches ?E8 (?b6, ?tail, ?c1) = ?h # t8" by blast
  have e7: \<open>matches ?E7 (?b5, ''"'' @ ?tail, ?c1) = ?h # t8\<close>
    using t8 by (simp only: matches_Cat_Lit)
  have \<open>\<exists>t. matches ?E6 (?b5, ''"'' @ ?tail, ?c1) = ?h # t\<close>
    by (rule head_Cat_Star_none [OF _ e7]) (simp add: is_space_def)
  then obtain t6 where t6: \<open>matches ?E6 (?b5, ''"'' @ ?tail, ?c1) = ?h # t6\<close> by blast
  have e5: \<open>matches ?E5 (?b4, ''='' @ ''"'' @ ?tail, ?c1) = ?h # t6\<close>
    using t6 by (simp only: matches_Cat_Lit)
  have \<open>\<exists>t. matches ?E4 (?b4, ''='' @ ''"'' @ ?tail, ?c1) = ?h # t\<close>
    by (rule head_Cat_Star_none [OF _ e5]) (simp add: is_space_def)
  then obtain t4 where t4: \<open>matches ?E4 (?b4, ''='' @ ''"'' @ ?tail, ?c1) = ?h # t4\<close> by blast
  have e3: \<open>matches ?E3 (?b3, ''fill'' @ ''='' @ ''"'' @ ?tail, ?c1) = ?h # t4\<close>
    using t4 by (simp only: matches_Cat_Lit)
  have \<open>\<exists>t. matches (Cat (Star (Chr is_space)) ?E3)
      (?b3, ''fill'' @ ''='' @ ''"'' @ ?tail, ?c1) = ?h # t\<close>
    by (rule head_Cat_Star_none [OF _ e3]) (simp add: is_space_def)
  then obtain t2 where t2: \<open>matches ?E2 (?b2, sp # ''fill'' @ ''='' @ ''"'' @ ?tail, ?c1) = ?h # t2\<close>
    using sp by (auto simp only: matches_Cat_Plus_Chr if_True)
  have no_later: \<open>\<not> includes_str (''ill="'' @ ?tail) ''fill''\<close>
  proof -
    have \<open>\<not> includes_str ((v @ ''"'' @ post) @ ''>'') ''fill''\<close>
      using includes_str_without_last [of \<open>v @ ''"'' @ post\<close> "CHR ''>''" "''fill''"] last
      by auto
    then show ?thesis by (simp add: startsWith_def)
  qed
  have \<open>\<exists>t. matches (Cat (Grp 1 (Star (Chr not_gt))) ?E2)
      (?b1, pre @ sp # ''fill="'' @ ?tail, []) = ?h # t\<close>
  proof (rule head_Cat_Star_Grp)
    show "\<forall>x \<in> set pre. not_gt x" using pre by (auto simp: not_gt_def)
    show \<open>matches ?E2 (rev pre @ ?b1, sp # ''fill="'' @ ?tail, ?c1) = ?h # t2\<close>
      using t2 by simp
    fix k
    let ?R = \<open>pre @ sp # ''fill="'' @ ?tail\<close>
    assume k: "length pre < k" "k \<le> length ?R"
    show "matches ?E2 (rev (take k ?R) @ ?b1, drop k ?R, [(1, take k ?R)]) = []"
    proof (cases "k = Suc (length pre)")
      case True
      then have \<open>drop k ?R = CHR ''f'' # ''ill="'' @ ?tail\<close> by simp
      then show ?thesis
        by (simp only: matches_Cat_Plus_Chr) (simp add: is_space_def)
    next
      case False
      with k obtain m where m: "k = length pre + 2 + m" by (metis Suc_lessI add_2_eq_Suc'
            less_iff_Suc_add add_Suc)
      then have d: \<open>drop k ?R = drop m (''ill="'' @ ?tail)\<close> by simp
      have \<open>\<not> includes_str (take m (''ill="'' @ ?tail) @ drop m (''ill="'' @ ?tail)) ''fill''\<close>
        by (subst append_take_drop_id) (rule no_later)
      then have \<open>\<not> includes_str (drop k ?R) ''fill''\<close>
        unfolding d by (rule not_includes_suffix)
      moreover have \<open>includes_str (rest st) ''fill''\<close> if "matches ?E2 st \<noteq> []" for st
        using that by (elim needs_Cat_right [rotated] needs_Cat_left [rotated] needs_Lit)
      ultimately show ?thesis
        by (metis rest_def fst_conv snd_conv)
    qed
  qed
  then obtain t1 where
    t1: \<open>matches (Cat (Grp 1 (Star (Chr not_gt))) ?E2)
      (?b1, pre @ sp # ''fill="'' @ ?tail, []) = ?h # t1\<close>
    by blast
  have \<open>matches rx_fill_App (b, ''<Path'' @ pre @ sp # ''fill="'' @ ?tail, []) = ?h # t1\<close>
    unfolding rx_fill_App_def Seq.simps using t1 by (simp only: matches_Cat_Lit)
  then show ?thesis by simp
qed


lemma fill_App_replaced:
  assumes pre: "CHR ''>'' \<notin> set pre"
    and sp: "is_space sp"
    and v: "CHR 0x22 \<notin> set v"
    and post: "CHR ''>'' \<notin> set post"
    and last: \<open>\<not> includes_str (v @ ''"'' @ post) ''fill''\<close>
  shows \<open>apply_fillColor_App (''<Path'' @ pre @ sp # ''fill="'' @ v @ ''"'' @ post @ ''>'') =
      ''<Path'' @ pre @ '' fill={fillColor} '' @ post @ ''>''\<close>
proof -
  let ?N = \<open>''<Path'' @ pre @ sp # ''fill="'' @ v @ ''"'' @ post @ ''>''\<close>
  from fill_App_head [OF assms, of "[]"] obtain t where
    "matches rx_fill_App ([], ?N, []) = (rev ?N @ [], [], [(2, post @ ''>''), (1, pre)]) # t"
    by blast
  from first_match_head [OF this]
  have fm: "first_match rx_fill_App [] ?N = Some (length ?N, [(2, post @ ''>''), (1, pre)])"
    by (simp add: remaining_def)
  have "matches rx_fill_App (rev ?N @ [], [], []) = []"
    unfolding rx_fill_App_def Seq.simps
    by (rule matches_Cat_Lit_fails) (simp add: startsWith_def)
  then have "first_match rx_fill_App (rev ?N @ []) [] = None"
    by (rule first_match_None)
  from replace_from_whole [OF fm _ this, of fill_App_fn]
  show ?thesis
    by (simp add: apply_fillColor_App_def replace_all_def fill_App_fn_def grp_def)
qed


text \<open>A literal under the flag \<^verbatim>\<open>i\<close> and the membership in the results of the other forms.\<close>

lemma matches_LitI:
  "matches (LitI w) (b, r, c) =
     (if length w \<le> length r \<and> map toUpperCase (take (length w) r) = map toUpperCase w
      then [(rev (take (length w) r) @ b, drop (length w) r, c)] else [])"
proof (induction w arbitrary: b r)
  case Nil
  show ?case by simp
next
  case (Cons x w)
  show ?case
  proof (cases r)
    case Nil
    then show ?thesis by simp
  next
    case (Cons y ys)
    then show ?thesis using Cons.IH [of "y # b" ys] by auto
  qed
qed

declare LitI.simps [simp del]

lemma matches_Cat_LitI:
  assumes "map toUpperCase x = map toUpperCase w"
  shows "matches (Cat (LitI w) e) (b, x @ r, c) = matches e (rev x @ b, r, c)"
proof -
  have "length x = length w" using assms by (metis length_map)
  then show ?thesis using assms by (simp add: matches_LitI)
qed

lemma matches_LitI_end:
  assumes "map toUpperCase x = map toUpperCase w"
  shows "matches (LitI w) (b, x @ r, c) = [(rev x @ b, r, c)]"
proof -
  have "length x = length w" using assms by (metis length_map)
  then show ?thesis using assms by (simp add: matches_LitI)
qed

lemma matches_LitI_fails:
  "\<not> startsWith (map toUpperCase r) (map toUpperCase w) \<Longrightarrow> matches (LitI w) (b, r, c) = []"
  by (auto simp: matches_LitI startsWith_def take_map)

lemma matches_Cat_LitI_fails:
  "\<not> startsWith (map toUpperCase r) (map toUpperCase w) \<Longrightarrow>
     matches (Cat (LitI w) e) (b, r, c) = []"
  by (simp add: matches_LitI_fails)

lemma in_matches_LitI:
  assumes "st' \<in> set (matches (LitI w) (b, r, c))"
  shows "\<exists>x r'. r = x @ r' \<and> map toUpperCase x = map toUpperCase w \<and> st' = (rev x @ b, r', c)"
proof -
  from assms have "map toUpperCase (take (length w) r) = map toUpperCase w"
    and "st' = (rev (take (length w) r) @ b, drop (length w) r, c)"
    by (auto simp: matches_LitI split: if_splits)
  moreover have "r = take (length w) r @ drop (length w) r" by simp
  ultimately show ?thesis by blast
qed

lemma in_matches_Lit:
  assumes "st' \<in> set (matches (Lit w) (b, r, c))"
  shows "\<exists>r'. r = w @ r' \<and> st' = (rev w @ b, r', c)"
proof -
  from assms have "take (length w) r = w" and "st' = (rev w @ b, drop (length w) r, c)"
    by (auto simp: matches_Lit startsWith_def split: if_splits)
  moreover have "r = take (length w) r @ drop (length w) r" by simp
  ultimately show ?thesis by metis
qed

lemma in_matches_Star_Chr_run:
  assumes "st' \<in> set (matches (Star (Chr p)) (b, r, c))"
  shows "\<exists>u r'. r = u @ r' \<and> (\<forall>x \<in> set u. p x) \<and> st' = (rev u @ b, r', c)"
proof -
  from in_matches_Star_Chr [OF assms] obtain k where
    k: "k \<le> length (takeWhile p r)" "st' = after k (b, r, c)" by blast
  have "r = take k r @ drop k r" by simp
  moreover have "st' = (rev (take k r) @ b, drop k r, c)" using k(2) by (simp add: after_def)
  ultimately show ?thesis using take_run [OF k(1)] by blast
qed

lemma in_matches_LazyStar_Chr_run:
  assumes "st' \<in> set (matches (LazyStar (Chr p)) (b, r, c))"
  shows "\<exists>u r'. r = u @ r' \<and> (\<forall>x \<in> set u. p x) \<and> st' = (rev u @ b, r', c)"
proof -
  from in_matches_LazyStar_Chr [OF assms] obtain k where
    k: "k \<le> length (takeWhile p r)" "st' = after k (b, r, c)" by blast
  have "r = take k r @ drop k r" by simp
  moreover have "st' = (rev (take k r) @ b, drop k r, c)" using k(2) by (simp add: after_def)
  ultimately show ?thesis using take_run [OF k(1)] by blast
qed

lemma Star_Chr_run:
  assumes "\<forall>x \<in> set u. p x"
  shows "(rev u @ b, r, c) \<in> set (matches (Star (Chr p)) (b, u @ r, c))"
proof -
  have "length u \<le> length (takeWhile p (u @ r))" using assms by simp
  moreover have "after (length u) (b, u @ r, c) = (rev u @ b, r, c)" by (simp add: after_def)
  ultimately show ?thesis
    unfolding matches_Star_Chr by (force simp: less_Suc_eq_le simp del: upt_Suc)
qed

lemma LazyStar_Chr_run:
  assumes "\<forall>x \<in> set u. p x"
  shows "(rev u @ b, r, c) \<in> set (matches (LazyStar (Chr p)) (b, u @ r, c))"
proof -
  have "length u \<le> length (takeWhile p (u @ r))" using assms by simp
  moreover have "after (length u) (b, u @ r, c) = (rev u @ b, r, c)" by (simp add: after_def)
  ultimately show ?thesis
    unfolding matches_LazyStar_Chr by (force simp: less_Suc_eq_le simp del: upt_Suc)
qed

lemma in_matches_Grp:
  "st' \<in> set (matches (Grp i e) (b, r, c)) \<longleftrightarrow>
     (\<exists>b' r' c'. (b', r', c') \<in> set (matches e (b, r, c)) \<and>
        st' = (b', r', (i, take (length r - length r') r) # c'))"
  by force

text \<open>The expression \<^verbatim>\<open>/<svg([^>]*)>([\s\S]*?)<\/svg>/i\<close> has a match exactly in a text with an
  opening \<^verbatim>\<open><svg\<close>, attributes without \<^verbatim>\<open>>\<close>, a \<^verbatim>\<open>>\<close> and a later \<^verbatim>\<open></svg>\<close>.\<close>

lemma rx_svg_sound:
  assumes "st' \<in> set (matches rx_svg (b, r, []))"
  shows "\<exists>x a c y post. r = x @ a @ ''>'' @ c @ y @ post
      \<and> map toUpperCase x = map toUpperCase ''<svg'' \<and> CHR ''>'' \<notin> set a
      \<and> map toUpperCase y = map toUpperCase ''</svg>''"
proof -
  let ?G1 = "Grp 1 (Star (Chr not_gt))"
  let ?G2 = "Grp 2 (LazyStar (Chr any_char))"
  from assms obtain m1 m2 m3 m4 where
    m1: "m1 \<in> set (matches (LitI ''<svg'') (b, r, []))" and
    m2: "m2 \<in> set (matches ?G1 m1)" and
    m3: "m3 \<in> set (matches (Lit ''>'') m2)" and
    m4: "m4 \<in> set (matches ?G2 m3)" and
    m5: "st' \<in> set (matches (LitI ''</svg>'') m4)"
    unfolding rx_svg_def Seq.simps in_matches_Cat by blast
  from in_matches_LitI [OF m1] obtain x r1 where
    x: "r = x @ r1" "map toUpperCase x = map toUpperCase ''<svg''" "m1 = (rev x @ b, r1, [])"
    by blast
  from m2 [unfolded x(3) in_matches_Grp] obtain b2 r2 c2 where
    g1: "(b2, r2, c2) \<in> set (matches (Star (Chr not_gt)) (rev x @ b, r1, []))"
      "m2 = (b2, r2, (1, take (length r1 - length r2) r1) # c2)"
    by blast
  from in_matches_Star_Chr_run [OF g1(1)] obtain a where
    a: "r1 = a @ r2" "\<forall>z \<in> set a. not_gt z" by blast
  from m3 [unfolded g1(2)] in_matches_Lit [of m3 "''>''" b2 r2] obtain r3 where
    r3: "r2 = ''>'' @ r3" "m3 = (rev ''>'' @ b2, r3, (1, take (length r1 - length r2) r1) # c2)"
    by blast
  from m4 [unfolded r3(2) in_matches_Grp] obtain b4 r4 c4 where
    g2: "(b4, r4, c4) \<in> set (matches (LazyStar (Chr any_char))
        (rev ''>'' @ b2, r3, (1, take (length r1 - length r2) r1) # c2))"
      "m4 = (b4, r4, (2, take (length r3 - length r4) r3) # c4)"
    by blast
  from in_matches_LazyStar_Chr_run [OF g2(1)] obtain c where
    c: "r3 = c @ r4" by blast
  from m5 [unfolded g2(2)] in_matches_LitI [of st' "''</svg>''" b4 r4] obtain y post where
    y: "r4 = y @ post" "map toUpperCase y = map toUpperCase ''</svg>''"
    by blast
  have "r = x @ a @ ''>'' @ c @ y @ post"
    using x(1) a(1) r3(1) c y(1) by simp
  moreover have "CHR ''>'' \<notin> set a" using a(2) by (auto simp: not_gt_def)
  ultimately show ?thesis using x(2) y(2) by blast
qed

lemma rx_svg_complete:
  assumes "map toUpperCase x = map toUpperCase ''<svg''" and "CHR ''>'' \<notin> set a"
    and "map toUpperCase y = map toUpperCase ''</svg>''"
  shows "matches rx_svg (b, x @ a @ ''>'' @ c @ y @ post, []) \<noteq> []"
proof -
  let ?G1 = "Grp 1 (Star (Chr not_gt))"
  let ?G2 = "Grp 2 (LazyStar (Chr any_char))"
  let ?b1 = "rev x @ b"
  let ?b2 = "rev a @ ?b1"
  let ?b3 = "rev ''>'' @ ?b2"
  let ?b4 = "rev c @ ?b3"
  let ?r1 = "a @ ''>'' @ c @ y @ post"
  let ?r2 = "''>'' @ c @ y @ post"
  let ?r3 = "c @ y @ post"
  let ?c2 = "[(1, take (length ?r1 - length ?r2) ?r1)]"
  let ?c4 = "(2, take (length ?r3 - length (y @ post)) ?r3) # ?c2"
  have m1: "(?b1, ?r1, []) \<in> set (matches (LitI ''<svg'') (b, x @ ?r1, []))"
    using matches_LitI_end [OF assms(1)] by simp
  have "(?b2, ?r2, []) \<in> set (matches (Star (Chr not_gt)) (?b1, ?r1, []))"
    by (rule Star_Chr_run) (use assms(2) in \<open>auto simp: not_gt_def\<close>)
  then have m2: "(?b2, ?r2, ?c2) \<in> set (matches ?G1 (?b1, ?r1, []))"
    unfolding in_matches_Grp by blast
  have m3: "(?b3, ?r3, ?c2) \<in> set (matches (Lit ''>'') (?b2, ?r2, ?c2))"
    using matches_Lit_end [of "''>''" ?b2 ?c2] by (simp add: matches_Lit startsWith_def)
  have "(?b4, y @ post, ?c2) \<in> set (matches (LazyStar (Chr any_char)) (?b3, ?r3, ?c2))"
    by (rule LazyStar_Chr_run) (simp add: any_char_def)
  then have m4: "(?b4, y @ post, ?c4) \<in> set (matches ?G2 (?b3, ?r3, ?c2))"
    unfolding in_matches_Grp by blast
  have m5: "(rev y @ ?b4, post, ?c4) \<in> set (matches (LitI ''</svg>'') (?b4, y @ post, ?c4))"
    using matches_LitI_end [OF assms(3)] by simp
  have "(rev y @ ?b4, post, ?c4) \<in> set (matches rx_svg (b, x @ ?r1, []))"
    unfolding rx_svg_def Seq.simps in_matches_Cat
    using m1 m2 m3 m4 m5 by blast
  then show ?thesis by auto
qed

lemma search_from_finds:
  assumes "\<And>b. matches e (b, r, []) \<noteq> []"
  shows "search_from e b (pre @ r) \<noteq> None"
proof (induction pre arbitrary: b)
  case Nil
  have "first_match e b r \<noteq> None"
    using assms [of b] by (auto simp: first_match_def split: list.splits)
  then show ?case by (cases r) (auto split: option.splits)
next
  case (Cons x pre)
  then show ?case by (auto split: option.splits)
qed

lemma svgMatch_None_iff:
  "svgMatch t = None \<longleftrightarrow>
     \<not> (\<exists>pre x a c y post. t = pre @ x @ a @ ''>'' @ c @ y @ post
        \<and> map toUpperCase x = map toUpperCase ''<svg'' \<and> CHR ''>'' \<notin> set a
        \<and> map toUpperCase y = map toUpperCase ''</svg>'')"
proof
  assume none: "svgMatch t = None"
  show "\<not> (\<exists>pre x a c y post. t = pre @ x @ a @ ''>'' @ c @ y @ post
        \<and> map toUpperCase x = map toUpperCase ''<svg'' \<and> CHR ''>'' \<notin> set a
        \<and> map toUpperCase y = map toUpperCase ''</svg>'')"
  proof
    assume "\<exists>pre x a c y post. t = pre @ x @ a @ ''>'' @ c @ y @ post
        \<and> map toUpperCase x = map toUpperCase ''<svg'' \<and> CHR ''>'' \<notin> set a
        \<and> map toUpperCase y = map toUpperCase ''</svg>''"
    then obtain pre x a c y post where d: "t = pre @ x @ a @ ''>'' @ c @ y @ post"
      "map toUpperCase x = map toUpperCase ''<svg''" "CHR ''>'' \<notin> set a"
      "map toUpperCase y = map toUpperCase ''</svg>''" by blast
    have "search_from rx_svg [] (pre @ x @ a @ ''>'' @ c @ y @ post) \<noteq> None"
      by (rule search_from_finds) (rule rx_svg_complete [OF d(2,3,4)])
    with none d(1) show False
      by (auto simp: svgMatch_def match_first_def split: option.splits)
  qed
next
  assume no: "\<not> (\<exists>pre x a c y post. t = pre @ x @ a @ ''>'' @ c @ y @ post
        \<and> map toUpperCase x = map toUpperCase ''<svg'' \<and> CHR ''>'' \<notin> set a
        \<and> map toUpperCase y = map toUpperCase ''</svg>'')"
  show "svgMatch t = None"
  proof (rule ccontr)
    assume "svgMatch t \<noteq> None"
    then obtain p m cs q where "search_from rx_svg [] t = Some (p, m, cs, q)"
      by (auto simp: svgMatch_def match_first_def split: option.splits)
    from search_from_first_match [OF this] obtain b' u r' n where
      u: "t = u @ r'" "first_match rx_svg b' r' = Some (n, cs)" by blast
    then obtain st where "st \<in> set (matches rx_svg (b', r', []))"
      by (auto simp: first_match_def split: list.splits)
    from rx_svg_sound [OF this] obtain x a c y post where
      "r' = x @ a @ ''>'' @ c @ y @ post" "map toUpperCase x = map toUpperCase ''<svg''"
      "CHR ''>'' \<notin> set a" "map toUpperCase y = map toUpperCase ''</svg>''" by blast
    with u(1) no show False by blast
  qed
qed
















section \<open>Evaluations of the three versions\<close>

lemma generic_nonstring:
  "svgToReactNative_generic (JBoolean True) = ''// Error parsing SVG''"
  by (simp add: svgToReactNative_generic_def svgToReactNative_generic_try_def)

lemma sized_match:
  \<open>svgMatch (sanitize ''<svg width="200" height="100"><path d="M0 0"/></svg>'') =
     Some ('' width="200" height="100"'', ''<path d="M0 0"/>'')\<close>
  by code_simp

lemma sized_attributes:
  \<open>camelCase (strip_root_attributes '' width="200" height="100"'') = []\<close>
  by code_simp

lemma sized_content:
  \<open>content_themed ''<path d="M0 0"/>'' = ''      <Path d="M0 0" />''\<close>
  by code_simp

lemma no_attributes: "camelCase (strip_root_attributes []) = []"
  by code_simp

lemma stroke_width_match:
  \<open>svgMatch (sanitize ''<svg stroke-width="3"></svg>'') = Some ('' stroke-width="3"'', [])\<close>
  by code_simp

lemma stroke_width_viewBox: \<open>viewBox '' stroke-width="3"'' = ''0 0 3 100''\<close>
  by code_simp

lemma stroke_width_first_match:
  \<open>svgMatch (sanitize ''<svg stroke-width="2" width="24" height="24"></svg>'') =
     Some ('' stroke-width="2" width="24" height="24"'', [])\<close>
  by code_simp

lemma stroke_width_first_viewBox:
  \<open>viewBox '' stroke-width="2" width="24" height="24"'' = ''0 0 2 24''\<close>
  by code_simp

lemma empty_content_App: "content_App [] = ''        ''"
  by code_simp

lemma empty_root_match: "svgMatch (sanitize ''<svg></svg>'') = Some ([], [])"
  by code_simp

lemma empty_root_viewBox: "viewBox [] = ''0 0 100 100''"
  by code_simp

lemma explicit_viewBox: \<open>viewBox '' width="24" height="24" viewBox="0 0 48 48"'' = ''0 0 48 48''\<close>
  by code_simp

lemma explicit_viewBox_alone: \<open>viewBox '' viewBox="0 0 48 48"'' = ''0 0 48 48''\<close>
  by code_simp

lemma rect_self_closing_generic:
  "rewrite_generic (sanitize_generic ''<svg><rect/></svg>'') = ''<Svg><Rect/></Svg>''"
  by code_simp

lemma rect_paired_generic:
  "rewrite_generic (sanitize_generic ''<svg><rect></rect></svg>'') = ''<Svg><Rect></Rect></Svg>''"
  by code_simp

lemma two_rects_match:
  "svgMatch (sanitize ''<svg><rect/><rect/></svg>'') = Some ([], ''<rect/><rect/>'')"
  by code_simp

lemma two_rects_paired_match:
  "svgMatch (sanitize ''<svg><rect/><rect></rect></svg>'') = Some ([], ''<rect/><rect></rect>'')"
  by code_simp

lemma two_rects_content: "content_themed ''<rect/><rect/>'' = ''      <Rect /><Rect />''"
  by code_simp

lemma two_rects_paired_content:
  "content_themed ''<rect/><rect></rect>'' = ''      <Rect /><Rect></Rect>''"
  by code_simp

lemma two_hyphens_generic:
  \<open>rewrite_generic (sanitize_generic ''<svg><path color-interpolation-filters="sRGB"/></svg>'') =
     ''<Svg><Path color-interpolationFilters="sRGB"/></Svg>''\<close>
  by code_simp

lemma one_hyphen: \<open>camelCase ''stroke-width="2"'' = ''strokeWidth="2"''\<close>
  by code_simp

lemma two_hyphens: \<open>camelCase ''color-interpolation-filters="sRGB"'' =
  ''color-interpolationFilters="sRGB"''\<close>
  by code_simp

lemma fragment_generic:
  \<open>rewrite_generic (sanitize_generic ''<g><path d="M0 0"/></g>'') = ''<G><Path d="M0 0"/></G>''\<close>
  by code_simp

lemma fragment_not_handed_on: \<open>onValueChange ''<g><path d="M0 0"/></g>'' = []\<close>
  by code_simp

lemma blocks_handed_on:
  "onValueChange ''<svg><rect/></svg>'' = ''<svg><rect/></svg>''"
  "onValueChange ''<svg><rect></rect></svg>'' = ''<svg><rect></rect></svg>''"
  \<open>onValueChange ''<svg><path color-interpolation-filters="sRGB"/></svg>'' =
     ''<svg><path color-interpolation-filters="sRGB"/></svg>''\<close>
  by code_simp+

lemma fragment_no_match: \<open>svgMatch (sanitize ''<g><path d="M0 0"/></g>'') = None\<close>
  by code_simp


lemma single_quoted_match:
  \<open>svgMatch (sanitize ''<svg><path fill='red' d="M0"/></svg>'') =
     Some ([], ''<path fill='red' d="M0"/>'')\<close>
  by code_simp

lemma single_quoted_content:
  \<open>content_themed ''<path fill='red' d="M0"/>'' = ''      <Path fill='red' d="M0" />''\<close>
  by code_simp

lemma single_quoted_content_App:
  \<open>content_App ''<path fill='red' d="M0"/>'' = ''        <Path fill='red' d="M0" />''\<close>
  by code_simp

lemma nested_root_match: "svgMatch (sanitize ''<g><svg></svg></g>'') = Some ([], [])"
  by code_simp

lemma empty_content_themed: "content_themed [] = ''      ''"
  by code_simp

lemma double_quoted_match:
  \<open>svgMatch (sanitize ''<svg><path fill="red" d="M0"/></svg>'') =
     Some ([], ''<path fill="red" d="M0"/>'')\<close>
  by code_simp

lemma double_quoted_content:
  \<open>content_themed ''<path fill="red" d="M0"/>'' = ''      <Path fill={fillColor} d="M0"  />''\<close>
  by code_simp

lemma double_quoted_content_App:
  \<open>content_App ''<path fill="red" d="M0"/>'' = ''        <Path fill={fillColor}  d="M0" />''\<close>
  by code_simp










lemma no_fill_match:
  \<open>svgMatch (sanitize ''<svg><path d="M0 0"/></svg>'') = Some ([], ''<path d="M0 0"/>'')\<close>
  by code_simp

lemma no_fill_content_App:
  \<open>content_App ''<path d="M0 0"/>'' = ''        <Path d="M0 0" />''\<close>
  by code_simp

lemma template_themed_not_comment: "\<not> startsWith (template_themed a c) ''// ''"
  by (simp add: template_themed_def startsWith_def)

lemma template_App_not_comment: "\<not> startsWith (template_App vb c) ''// ''"
  by (simp add: template_App_def startsWith_def)

lemma wrap_generic_not_comment: "\<not> startsWith (wrap_generic s) ''// ''"
  by (simp add: wrap_generic_def startsWith_def)


section \<open>The claims\<close>



text \<open>
  C2. The claim: every input without a top-level svg element, for example
  \<^verbatim>\<open>convert("<g><path d=\"M0 0\"/></g>", "generic")\<close>, yields a sentinel failure that cites
  the missing root, not generated source rooted at \<^verbatim>\<open><G>\<close>. The generic version looks for no
  root, which its editor does before it (\<open>fragment_not_handed_on\<close>): on the example the
  converter returns generated source rooted at \<^verbatim>\<open><G>\<close>. The themed versions look for an svg
  block anywhere in the text, not for a top-level element: for \<^verbatim>\<open><g><svg></svg></g>\<close>, whose
  top-level element is \<^verbatim>\<open>g\<close>, both return generated source.
\<close>

theorem missing_root_not_reported:
  \<open>svgToReactNative_generic (JString ''<g><path d="M0 0"/></g>'') =
     wrap_generic ''<G><Path d="M0 0"/></G>''
   \<and> \<not> is_error_comment (svgToReactNative_generic (JString ''<g><path d="M0 0"/></g>''))
   \<and> \<not> startsWith (svgToReactNative_generic (JString ''<g><path d="M0 0"/></g>'')) ''// ''
   \<and> svgToReactNative_themed (JString ''<g><svg></svg></g>'') = template_themed [] ''      ''
   \<and> \<not> is_error_comment (svgToReactNative_themed (JString ''<g><svg></svg></g>''))
   \<and> svgToReactNative_App (JString ''<g><svg></svg></g>'') =
       template_App ''0 0 100 100'' ''        ''
   \<and> \<not> is_error_comment (svgToReactNative_App (JString ''<g><svg></svg></g>''))\<close>
  by (simp add: svgToReactNative_generic_def svgToReactNative_generic_try_def
      svgToReactNative_themed_def svgToReactNative_App_def nested_root_match no_attributes
      empty_content_themed empty_content_App empty_root_viewBox
      fragment_generic is_error_comment_def startsWith_def wrap_generic_def
      template_themed_def template_App_def)

text \<open>
  C2, as amended. Under the themed flavor, for every non-empty input string: the result of
  either themed version is the failure comment "// No valid SVG content found" exactly when
  the sanitized text contains no svg block, that is, no \<^verbatim>\<open><svg\<close> (in any case of the letters)
  followed by attributes without \<^verbatim>\<open>>\<close>, a \<^verbatim>\<open>>\<close> and, somewhere later, \<^verbatim>\<open></svg>\<close> (in any case);
  otherwise the result is no failure comment. The example of the claim has no such block.
\<close>

theorem no_svg_block_fails_in_themed:
  assumes "s \<noteq> []"
  shows "(let block = (\<exists>pre x a c y post. sanitize s = pre @ x @ a @ ''>'' @ c @ y @ post
                \<and> map toUpperCase x = ''<SVG'' \<and> CHR ''>'' \<notin> set a
                \<and> map toUpperCase y = ''</SVG>'')
          in (svgToReactNative_themed (JString s) = ''// No valid SVG content found'') = (\<not> block)
           \<and> (svgToReactNative_App (JString s) = ''// No valid SVG content found'') = (\<not> block)
           \<and> is_error_comment (svgToReactNative_themed (JString s)) = (\<not> block)
           \<and> is_error_comment (svgToReactNative_App (JString s)) = (\<not> block))"
proof -
  define block where "block \<longleftrightarrow>
      (\<exists>pre x a c y post. sanitize s = pre @ x @ a @ ''>'' @ c @ y @ post
                \<and> map toUpperCase x = ''<SVG'' \<and> CHR ''>'' \<notin> set a
                \<and> map toUpperCase y = ''</SVG>'')"
  have up: "map toUpperCase ''<svg'' = ''<SVG''" "map toUpperCase ''</svg>'' = ''</SVG>''"
    by code_simp+
  have iff: "svgMatch (sanitize s) = None \<longleftrightarrow> \<not> block"
    unfolding block_def using svgMatch_None_iff [of "sanitize s"] by (simp only: up)
  have tt: "\<not> is_error_comment (template_themed x y)"
    "template_themed x y \<noteq> ''// No valid SVG content found''" for x y
    by (simp_all add: template_themed_def is_error_comment_def startsWith_def)
  have ta: "\<not> is_error_comment (template_App x y)"
    "template_App x y \<noteq> ''// No valid SVG content found''" for x y
    by (simp_all add: template_App_def is_error_comment_def startsWith_def)
  have nv: "is_error_comment ''// No valid SVG content found''"
    by (simp add: is_error_comment_def startsWith_def)
  have goal: "(svgToReactNative_themed (JString s) = ''// No valid SVG content found'') = (\<not> block)
           \<and> (svgToReactNative_App (JString s) = ''// No valid SVG content found'') = (\<not> block)
           \<and> is_error_comment (svgToReactNative_themed (JString s)) = (\<not> block)
           \<and> is_error_comment (svgToReactNative_App (JString s)) = (\<not> block)"
  proof (cases "svgMatch (sanitize s)")
    case None
    then show ?thesis
      using assms iff nv
      by (simp add: svgToReactNative_themed_def svgToReactNative_App_def)
  next
    case (Some m)
    obtain a c where m: "m = (a, c)" by (cases m)
    from Some iff have block by simp
    then show ?thesis
      using assms Some m tt ta
      by (simp add: svgToReactNative_themed_def svgToReactNative_App_def)
  qed
  show ?thesis unfolding Let_def by (rule goal [unfolded block_def])
qed

theorem no_svg_block_fails_in_themed_witness:
  \<open>''<g><path d="M0 0"/></g>'' \<noteq> []
   \<and> svgToReactNative_themed (JString ''<g><path d="M0 0"/></g>'') =
       ''// No valid SVG content found''
   \<and> svgToReactNative_App (JString ''<g><path d="M0 0"/></g>'') =
       ''// No valid SVG content found''
   \<and> \<not> (\<exists>pre x a c y post.
          sanitize ''<g><path d="M0 0"/></g>'' = pre @ x @ a @ ''>'' @ c @ y @ post
          \<and> map toUpperCase x = ''<SVG'' \<and> CHR ''>'' \<notin> set a
          \<and> map toUpperCase y = ''</SVG>'')
   \<and> ''<g><svg></svg></g>'' \<noteq> []
   \<and> \<not> is_error_comment (svgToReactNative_themed (JString ''<g><svg></svg></g>''))
   \<and> (\<exists>pre x a c y post.
          sanitize ''<g><svg></svg></g>'' = pre @ x @ a @ ''>'' @ c @ y @ post
          \<and> map toUpperCase x = ''<SVG'' \<and> CHR ''>'' \<notin> set a
          \<and> map toUpperCase y = ''</SVG>'')\<close>
proof -
  have ne: \<open>''<g><path d="M0 0"/></g>'' \<noteq> []\<close> \<open>''<g><svg></svg></g>'' \<noteq> []\<close>
    by simp_all
  have a: \<open>svgToReactNative_themed (JString ''<g><path d="M0 0"/></g>'') =
       ''// No valid SVG content found''\<close>
    and a': \<open>svgToReactNative_App (JString ''<g><path d="M0 0"/></g>'') =
       ''// No valid SVG content found''\<close>
    by (simp_all add: svgToReactNative_themed_def svgToReactNative_App_def fragment_no_match)
  have b: \<open>\<not> is_error_comment (svgToReactNative_themed (JString ''<g><svg></svg></g>''))\<close>
    by (simp add: svgToReactNative_themed_def nested_root_match template_themed_def
        is_error_comment_def startsWith_def)
  note t1 = no_svg_block_fails_in_themed [OF ne(1), unfolded Let_def]
  note t2 = no_svg_block_fails_in_themed [OF ne(2), unfolded Let_def]
  have n1: \<open>\<not> (\<exists>pre x a c y post.
          sanitize ''<g><path d="M0 0"/></g>'' = pre @ x @ a @ ''>'' @ c @ y @ post
          \<and> map toUpperCase x = ''<SVG'' \<and> CHR ''>'' \<notin> set a
          \<and> map toUpperCase y = ''</SVG>'')\<close>
    by (rule iffD1 [OF conjunct1 [OF t1] a])
  have \<open>\<not> \<not> (\<exists>pre x a c y post.
          sanitize ''<g><svg></svg></g>'' = pre @ x @ a @ ''>'' @ c @ y @ post
          \<and> map toUpperCase x = ''<SVG'' \<and> CHR ''>'' \<notin> set a
          \<and> map toUpperCase y = ''</SVG>'')\<close>
    using b unfolding conjunct1 [OF conjunct2 [OF conjunct2 [OF t2]]] .
  then have n2: \<open>\<exists>pre x a c y post.
          sanitize ''<g><svg></svg></g>'' = pre @ x @ a @ ''>'' @ c @ y @ post
          \<and> map toUpperCase x = ''<SVG'' \<and> CHR ''>'' \<notin> set a
          \<and> map toUpperCase y = ''</SVG>''\<close>
    by (rule notnotD)
  show ?thesis
    using ne a a' b n1 n2 by (intro conjI)
qed

text \<open>
  C3. The claim: under the themed flavor a Path node without a fill attribute is emitted
  unchanged, and of a Path node with a fill attribute only the value of that attribute is
  replaced by the reference to \<^verbatim>\<open>fillColor\<close>. The code says the same of itself (part_001 67:
  "Apply fillColor to Path elements"; App.jsx 316 and 320: "only replace fill attributes if
  they exist", "This path had a fill attribute, replace it with fill={fillColor}"), and it
  does so for a fill attribute in double quotes. But its expressions look for \<^verbatim>\<open>fill="\<close> only,
  whereas the same function reads the width, height and viewBox of the root in either kind
  of quotes (App.jsx 252, 253 and 341): for the input \<^verbatim>\<open><svg><path fill='red' d="M0"/></svg>\<close>
  both themed versions emit the Path node with its fill attribute \<^verbatim>\<open>fill='red'\<close>, the value not
  replaced, where the same input in double quotes gets \<^verbatim>\<open>fill={fillColor}\<close>.
\<close>

theorem single_quoted_fill_kept:
  \<open>svgToReactNative_themed (JString ''<svg><path fill='red' d="M0"/></svg>'') =
     template_themed [] ''      <Path fill='red' d="M0" />''
   \<and> svgToReactNative_App (JString ''<svg><path fill='red' d="M0"/></svg>'') =
     template_App ''0 0 100 100'' ''        <Path fill='red' d="M0" />''
   \<and> svgToReactNative_themed (JString ''<svg><path fill="red" d="M0"/></svg>'') =
     template_themed [] ''      <Path fill={fillColor} d="M0"  />''
   \<and> svgToReactNative_App (JString ''<svg><path fill="red" d="M0"/></svg>'') =
     template_App ''0 0 100 100'' ''        <Path fill={fillColor}  d="M0" />''\<close>
  by (simp add: svgToReactNative_themed_def svgToReactNative_App_def single_quoted_match
      single_quoted_content single_quoted_content_App double_quoted_match
      double_quoted_content double_quoted_content_App no_attributes empty_root_viewBox)

text \<open>
  C4. The claim: under the themed flavor the emitted component computes its height from the
  width prop and the original aspect ratio, \<^verbatim>\<open>height = width * originalHeight / originalWidth\<close>.
  The code's own comment says "Maintain the aspect ratio based on the original SVG size", but
  the emitted line is the constant \<^verbatim>\<open>(width * 1024) / 1024\<close>: for an input of width 200 and
  height 100 the component below is emitted, whose height equals its width.
\<close>

theorem themed_height_is_constant:
  \<open>svgToReactNative_themed (JString ''<svg width="200" height="100"><path d="M0 0"/></svg>'') =
     ''import React from "react"'' @ [nl] @
     ''import Svg, { Path } from "react-native-svg"'' @ [nl, nl] @
     ''interface ThemeSVGProps {'' @ [nl] @
     ''  width: number // Accepts width as a prop'' @ [nl] @
     ''  fillColor: string'' @ [nl] @
     ''}'' @ [nl, nl] @
     ''const FinalVersion: React.FC<ThemeSVGProps> = ({ width, fillColor }) => {'' @ [nl] @
     ''  const height = (width * 1024) / 1024 // Maintain the aspect ratio based on the original SVG size''
       @ [nl, nl] @
     ''  return ('' @ [nl] @
     ''    <Svg width={width} height={height}  fill={fillColor}>'' @ [nl] @
     ''      <Path d="M0 0" />'' @ [nl] @
     ''    </Svg>'' @ [nl] @
     ''  )'' @ [nl] @
     ''}'' @ [nl, nl] @
     ''export default FinalVersion''\<close>
  by (simp add: svgToReactNative_themed_def sized_match sized_attributes sized_content
      template_themed_def)

text \<open>
  C5. The claim: the sizing takes width and height from the root's attributes, each missing
  one defaulting to "100", and an explicit viewBox wins over the synthesized one. The
  expressions that look for the width and the height are not anchored at an attribute name:
  on a root with \<^verbatim>\<open>stroke-width="2" width="24" height="24"\<close> the width resolves to the stroke
  width and the synthesized viewBox is "0 0 2 24", and on a root that has a \<^verbatim>\<open>stroke-width\<close>
  and no \<^verbatim>\<open>width\<close> the width resolves to the stroke width, not to "100".
\<close>

theorem width_taken_from_stroke_width:
  \<open>dimension ''width'' '' stroke-width="2" width="24" height="24"'' = ''2''
   \<and> svgToReactNative_App (JString ''<svg stroke-width="2" width="24" height="24"></svg>'') =
     ''<Svg width={width} height={height} viewBox="0 0 2 24" fill={fillColor}>'' @ [nl] @
     ''        '' @ [nl] @ ''</Svg>''
   \<and> dimension ''width'' '' stroke-width="3"'' = ''3''
   \<and> svgToReactNative_App (JString ''<svg stroke-width="3"></svg>'') =
     ''<Svg width={width} height={height} viewBox="0 0 3 100" fill={fillColor}>'' @ [nl] @
     ''        '' @ [nl] @ ''</Svg>''\<close>
proof -
  have \<open>dimension ''width'' '' stroke-width="2" width="24" height="24"'' = ''2''\<close>
    by code_simp
  moreover have \<open>dimension ''width'' '' stroke-width="3"'' = ''3''\<close>
    by code_simp
  ultimately show ?thesis
    by (simp add: svgToReactNative_App_def stroke_width_match stroke_width_viewBox
        stroke_width_first_match stroke_width_first_viewBox empty_content_App template_App_def)
qed

text \<open>
  C6. The claim: an element with no children and no text is rendered self-closing whatever
  the form of the source, so that \<^verbatim>\<open><rect/>\<close> and \<^verbatim>\<open><rect></rect>\<close> give the same output. The
  generic version has the step "Self-close tags if not already closed", whose callback
  returns the match unchanged in both branches; the themed version collapses an empty pair
  only when no earlier match of the pair expression has consumed it. Both outputs differ.
\<close>

theorem empty_pair_not_collapsed:
  "svgToReactNative_generic (JString ''<svg><rect/></svg>'') = wrap_generic ''<Svg><Rect/></Svg>''
   \<and> svgToReactNative_generic (JString ''<svg><rect></rect></svg>'') =
       wrap_generic ''<Svg><Rect></Rect></Svg>''
   \<and> svgToReactNative_themed (JString ''<svg><rect/><rect/></svg>'') =
       template_themed [] ''      <Rect /><Rect />''
   \<and> svgToReactNative_themed (JString ''<svg><rect/><rect></rect></svg>'') =
       template_themed [] ''      <Rect /><Rect></Rect>''"
  by (simp add: svgToReactNative_generic_def svgToReactNative_generic_try_def
      svgToReactNative_themed_def rect_self_closing_generic rect_paired_generic
      two_rects_match two_rects_paired_match two_rects_content two_rects_paired_content
      no_attributes)

text \<open>
  C7. The claim: a hyphenated attribute name is rewritten to camelCase, repeating until no
  hyphen remains, so that a name with two or more hyphens ends with none. The step "Convert
  hyphenated attributes to camelCase" is one pass of an expression that wants \<^verbatim>\<open>=\<close> right
  after the second segment: of a name with two hyphens only the last is removed.
\<close>

theorem two_hyphens_keep_one:
  \<open>camelCase ''stroke-width="2"'' = ''strokeWidth="2"''
   \<and> camelCase ''color-interpolation-filters="sRGB"'' = ''color-interpolationFilters="sRGB"''
   \<and> svgToReactNative_generic
         (JString ''<svg><path color-interpolation-filters="sRGB"/></svg>'') =
       wrap_generic ''<Svg><Path color-interpolationFilters="sRGB"/></Svg>''\<close>
  by (simp add: svgToReactNative_generic_def svgToReactNative_generic_try_def
      one_hyphen two_hyphens two_hyphens_generic)




text \<open>
  C9. For every falsy input (the empty string, null, undefined, and false as well) the
  generic version returns the empty string, which is neither generated source nor an error
  comment, and both themed versions return "// Invalid SVG input".
\<close>

theorem falsy_input:
  "\<not> truthy v \<Longrightarrow>
     svgToReactNative_generic v = []
     \<and> \<not> is_error_comment (svgToReactNative_generic v)
     \<and> \<not> startsWith (svgToReactNative_generic v) ''//''
     \<and> (\<forall>svg. svgToReactNative_generic v \<noteq> wrap_generic svg)
     \<and> svgToReactNative_themed v = ''// Invalid SVG input''
     \<and> svgToReactNative_App v = ''// Invalid SVG input''"
  by (cases v) (simp_all add: svgToReactNative_generic_def svgToReactNative_themed_def
      svgToReactNative_App_def is_error_comment_def startsWith_def wrap_generic_def)

theorem falsy_input_witness:
  "\<not> truthy (JString []) \<and> \<not> truthy JNull \<and> \<not> truthy JUndefined
   \<and> svgToReactNative_generic (JString []) = []
   \<and> svgToReactNative_generic JNull = []
   \<and> svgToReactNative_generic JUndefined = []
   \<and> svgToReactNative_themed (JString []) = ''// Invalid SVG input''
   \<and> svgToReactNative_themed JNull = ''// Invalid SVG input''
   \<and> svgToReactNative_themed JUndefined = ''// Invalid SVG input''"
  using falsy_input [of "JString []"] falsy_input [of JNull] falsy_input [of JUndefined]
  by simp



end
